theory Spec2Isabelle
  imports Complex_Main "HOL-Library.Sublist" "HOL-Library.Multiset" "HOL-Library.AList"
begin

section \<open>TPOT TAR-PIT WATCH 0.6.7: session tracking and persisted history\<close>

text \<open>
  A shallow embedding of \<^verbatim>\<open>tarpit_watch.py\<close>: the private-address predicate, the
  reconciliation pass \<^verbatim>\<open>App.update_sessions\<close>, the persistence functions
  \<^verbatim>\<open>load_stats\<close> and \<^verbatim>\<open>save_stats\<close>, and \<^verbatim>\<open>App.reset_lifetime_hits\<close>.

  Modelling conventions.
  \<^item> Python strings are \<^typ>\<open>string\<close>; the address and state strings of a conntrack row
    are ASCII (they are cut out of the conntrack output by \<^verbatim>\<open>RE_CT\<close>).
  \<^item> Python \<^verbatim>\<open>int\<close> is \<^typ>\<open>int\<close>. The \<^verbatim>\<open>float\<close> timestamps (\<^verbatim>\<open>time.time()\<close>) and the
    grace period are \<^typ>\<open>real\<close>: finite values, with rounding of the subtraction left out.
  \<^item> \<^verbatim>\<open>self.sessions\<close> is an insertion-ordered dict, modelled as an association list whose
    keys are distinct; \<^const>\<open>AList.update\<close> overwrites in place or appends at the end and
    \<^const>\<open>AList.delete\<close> removes the key, as the dict does.
  \<^item> The stats document is a dict read with \<^verbatim>\<open>.get(key, default)\<close>: a record whose fields
    are optional (\<open>None\<close> is an absent key), at the types the program itself writes.
  \<^item> What the program reads from outside (conntrack rows, wall clock, file system) is an
    argument of the function that reads it.
\<close>

subsection \<open>Constants\<close>

definition VERSION :: string where
  "VERSION = ''0.6.7''"

definition DEFAULT_EXCLUDE_ADMIN_PORTS :: "int set" where
  "DEFAULT_EXCLUDE_ADMIN_PORTS = {64295, 64294, 64297}"

definition DEFAULT_GRACE_S :: real where
  "DEFAULT_GRACE_S = 8"

definition DEFAULT_HISTORY_N :: int where
  "DEFAULT_HISTORY_N = 50"

text \<open>\<^verbatim>\<open>THEMES[0]\<close>, the only entry of the theme table the persistence code reads.\<close>

definition THEMES_0 :: string where
  "THEMES_0 = ''amber''"

subsection \<open>Python built-ins used by the code\<close>

datatype error = ValueError string | IndexError | OSError string | Raised string

text \<open>\<^verbatim>\<open>str(n)\<close> for an integer: decimal digits, a minus sign for a negative number.\<close>

definition digit_char :: "nat \<Rightarrow> char" where
  "digit_char d = ''0123456789'' ! d"

fun str_nat :: "nat \<Rightarrow> string" where
  "str_nat n = (if n < 10 then [digit_char n] else str_nat (n div 10) @ [digit_char (n mod 10)])"

declare str_nat.simps [simp del]

definition str_int :: "int \<Rightarrow> string" where
  "str_int i = (if i < 0 then CHR ''-'' # str_nat (nat (- i)) else str_nat (nat i))"

text \<open>
  \<^verbatim>\<open>int(s)\<close> for a string, base 10: surrounding whitespace is stripped, one sign is
  allowed, then digits, with single underscores allowed between digits. Anything else
  raises \<^verbatim>\<open>ValueError\<close>. (ASCII only; the interpreter's limit on the number of digits is
  left out.)
\<close>

definition is_space :: "char \<Rightarrow> bool" where
  "is_space c = (c \<in> set [CHR 0x20, CHR 0x09, CHR 0x0A, CHR 0x0B, CHR 0x0C, CHR 0x0D,
                           CHR 0x1C, CHR 0x1D, CHR 0x1E, CHR 0x1F])"

definition strip :: "string \<Rightarrow> string" where
  "strip s = rev (dropWhile is_space (rev (dropWhile is_space s)))"

definition is_digit :: "char \<Rightarrow> bool" where
  "is_digit c = (c \<in> set ''0123456789'')"

definition digit_val :: "char \<Rightarrow> nat" where
  "digit_val c = (of_char c :: nat) - 48"

fun parse_digits :: "nat \<Rightarrow> string \<Rightarrow> nat option" where
  "parse_digits acc [] = Some acc"
| "parse_digits acc [c] = (if is_digit c then Some (acc * 10 + digit_val c) else None)"
| "parse_digits acc (c # d # cs) =
     (if is_digit c then parse_digits (acc * 10 + digit_val c) (d # cs)
      else if c = CHR ''_'' \<and> is_digit d then parse_digits acc (d # cs)
      else None)"

definition parse_unsigned :: "string \<Rightarrow> nat option" where
  "parse_unsigned s = (case s of [] \<Rightarrow> None
                       | c # cs \<Rightarrow> if is_digit c then parse_digits 0 s else None)"

definition py_int_of_str :: "string \<Rightarrow> error + int" where
  "py_int_of_str s =
     (let t = strip s;
          r = (case t of
                 [] \<Rightarrow> None
               | c # cs \<Rightarrow>
                   if c = CHR ''+'' then map_option int (parse_unsigned cs)
                   else if c = CHR ''-'' then map_option (\<lambda>n. - int n) (parse_unsigned cs)
                   else map_option int (parse_unsigned t))
      in case r of None \<Rightarrow> Inl (ValueError s) | Some v \<Rightarrow> Inr v)"

text \<open>\<^verbatim>\<open>s.split(c)\<close> for a one-character separator: never empty, one more part than separators.\<close>

fun split_on :: "char \<Rightarrow> string \<Rightarrow> string list" where
  "split_on c [] = [[]]"
| "split_on c (x # xs) =
     (if x = c then [] # split_on c xs
      else (case split_on c xs of [] \<Rightarrow> [[x]] | w # ws \<Rightarrow> (x # w) # ws))"

text \<open>\<^verbatim>\<open>xs[i]\<close> for \<open>i \<ge> 0\<close>: \<^verbatim>\<open>IndexError\<close> out of range.\<close>

definition index :: "'a list \<Rightarrow> nat \<Rightarrow> error + 'a" where
  "index xs i = (if i < length xs then Inr (xs ! i) else Inl IndexError)"

text \<open>\<^verbatim>\<open>int(x)\<close> for a float: truncation towards zero.\<close>

definition py_int_of_float :: "real \<Rightarrow> int" where
  "py_int_of_float x = (if 0 \<le> x then \<lfloor>x\<rfloor> else \<lceil>x\<rceil>)"

text \<open>\<^verbatim>\<open>xs[:n]\<close>: a negative \<open>n\<close> counts from the end.\<close>

definition slice_to :: "int \<Rightarrow> 'a list \<Rightarrow> 'a list" where
  "slice_to n xs = (if 0 \<le> n then take (nat n) xs else take (length xs - nat (- n)) xs)"

subsection \<open>The private-address predicate\<close>

text \<open>
  \<^verbatim>\<open>_is_private_ipv4\<close>. In the \<^verbatim>\<open>172.\<close> branch the \<^verbatim>\<open>try\<close> block computes
  \<^verbatim>\<open>int(ip.split(".")[1])\<close>; every exception gives \<open>False\<close>.
\<close>

definition second_int :: "string \<Rightarrow> error + int" where
  "second_int ip = (case index (split_on CHR ''.'' ip) 1 of
                      Inl e \<Rightarrow> Inl e
                    | Inr c \<Rightarrow> py_int_of_str c)"

definition is_private_ipv4 :: "string \<Rightarrow> bool" where
  "is_private_ipv4 ip =
     (if prefix ''10.'' ip then True
      else if prefix ''192.168.'' ip then True
      else if prefix ''127.'' ip then True
      else if prefix ''169.254.'' ip then True
      else if prefix ''172.'' ip then
        (case second_int ip of
           Inr x \<Rightarrow> 16 \<le> x \<and> x \<le> 31
         | Inl e \<Rightarrow> False)
      else False)"


subsection \<open>Data model\<close>

text \<open>One parsed conntrack line, as \<^verbatim>\<open>read_conntrack_tcp\<close> returns it.\<close>

record row =
  r_timeout :: int
  r_state :: string
  r_src :: string
  r_dst :: string
  r_sport :: int
  r_dport :: int
  r_rsrc :: string
  r_rdst :: string
  r_rsport :: int
  r_rdport :: int

text \<open>The dataclass \<^verbatim>\<open>Session\<close>.\<close>

record session =
  key :: string
  src_ip :: string
  src_port :: int
  dst_ip :: string
  dst_port :: int
  state :: string
  timeout_s :: int
  first_seen :: real
  last_seen :: real

text \<open>An entry of \<^verbatim>\<open>ended_history\<close>; \<open>e_state\<close> is its \<^verbatim>\<open>"state"\<close>.\<close>

record ended =
  ended_ts :: string
  src :: string
  sport :: int
  dst :: string
  dport :: int
  e_state :: string
  duration_s :: int
  container :: string

text \<open>
  The stats document; \<open>None\<close> is a key the dict does not have, and \<open>notes_list\<close> is
  its \<^verbatim>\<open>"notes"\<close>.
\<close>

record stats =
  version :: "string option"
  created :: "string option"
  updated :: "string option"
  notes_list :: "string list option"
  theme :: "string option"
  lifetime_port_hits :: "(string \<rightharpoonup> int) option"
  ended_history :: "ended list option"

text \<open>
  The fields of \<^verbatim>\<open>App\<close> that the modelled methods read or write;
  \<open>docker_port_map\<close> is \<^verbatim>\<open>self.docker.port_map\<close>.
\<close>

record app =
  args_grace :: real
  args_history_n :: int
  stats :: stats
  hide_private :: bool
  hide_admin :: bool
  mode :: string
  last_action :: string
  host_ips :: "string set"
  sessions :: "(string \<times> session) list"
  port_hits_run :: "int \<rightharpoonup> int"
  docker_port_map :: "int \<rightharpoonup> string"

text \<open>
  What one call of \<^verbatim>\<open>update_sessions\<close> reads from outside: the host addresses, the
  conntrack rows, and the wall clock (\<open>env_wall i\<close> is the text of the \<open>i\<close>-th reading of
  \<^verbatim>\<open>_now_local().isoformat()\<close>).
\<close>

record env =
  env_host_ips :: "string list"
  env_rows :: "row list"
  env_wall :: "nat \<Rightarrow> string"

text \<open>The local variables of the first loop of \<^verbatim>\<open>update_sessions\<close>, with the object.\<close>

record loop =
  l_app :: app
  state_counts :: "string \<rightharpoonup> int"
  seen_keys :: "string set"

subsection \<open>Reconciliation: \<^verbatim>\<open>App.update_sessions\<close>\<close>

text \<open>\<^verbatim>\<open>d.get(k, 0)\<close>.\<close>

definition get0 :: "('k \<rightharpoonup> int) \<Rightarrow> 'k \<Rightarrow> int" where
  "get0 m k = (case m k of None \<Rightarrow> 0 | Some v \<Rightarrow> v)"

definition set_action :: "app \<Rightarrow> string \<Rightarrow> app" where
  "set_action a s = a\<lparr>last_action := s\<rparr>"

definition container_for_port :: "app \<Rightarrow> int \<Rightarrow> string" where
  "container_for_port a port =
     (case docker_port_map a port of
        None \<Rightarrow> ''unmapped''
      | Some name \<Rightarrow> if name = [] then ''unmapped'' else name)"

text \<open>The f-string \<^verbatim>\<open>f"{src_ip}:{r['sport']}->{r['dst']}:{dport}"\<close>.\<close>

definition flow_key :: "row \<Rightarrow> string" where
  "flow_key r = r_src r @ '':'' @ str_int (r_sport r) @ ''->'' @ r_dst r @ '':'' @ str_int (r_dport r)"

text \<open>
  The body of the first loop after its four \<^verbatim>\<open>continue\<close> guards: the key is noted as
  seen, the state is counted, and the session is created (with both port counters
  incremented) or updated.
\<close>

definition track_row :: "real \<Rightarrow> row \<Rightarrow> loop \<Rightarrow> loop" where
  "track_row now r l =
     (let a = l_app l;
          dport = r_dport r;
          src_ip = r_src r;
          st = r_state r;
          k = flow_key r;
          seen = insert k (seen_keys l);
          counts = (state_counts l)(st \<mapsto> get0 (state_counts l) st + 1)
      in case map_of (sessions a) k of
           None \<Rightarrow>
             (let lph = (case lifetime_port_hits (stats a) of None \<Rightarrow> Map.empty | Some m \<Rightarrow> m);
                  lph' = lph(str_int dport \<mapsto> get0 lph (str_int dport) + 1)
              in \<lparr>l_app = a\<lparr>stats := (stats a)\<lparr>lifetime_port_hits := Some lph'\<rparr>,
                              sessions := AList.update k
                                \<lparr>key = k, src_ip = src_ip, src_port = r_sport r,
                                 dst_ip = r_dst r, dst_port = dport, state = st,
                                 timeout_s = r_timeout r, first_seen = now, last_seen = now\<rparr>
                                (sessions a),
                              port_hits_run :=
                                (port_hits_run a)(dport \<mapsto> get0 (port_hits_run a) dport + 1)\<rparr>,
                  state_counts = counts, seen_keys = seen\<rparr>)
         | Some s \<Rightarrow>
             \<lparr>l_app = a\<lparr>sessions := AList.update k
                             (s\<lparr>state := st, timeout_s := r_timeout r, last_seen := now\<rparr>)
                             (sessions a)\<rparr>,
              state_counts = counts, seen_keys = seen\<rparr>)"

definition ingest_row :: "int set \<Rightarrow> real \<Rightarrow> row \<Rightarrow> loop \<Rightarrow> loop" where
  "ingest_row watched now r l =
     (if r_dport r \<notin> watched then l
      else if hide_private (l_app l) \<and> is_private_ipv4 (r_src r) then l
      else if hide_admin (l_app l) \<and> r_dport r \<in> DEFAULT_EXCLUDE_ADMIN_PORTS then l
      else if mode (l_app l) = ''EST'' \<and> r_state r \<noteq> ''ESTABLISHED'' then l
      else track_row now r l)"

text \<open>
  The expiry loop runs over a snapshot \<^verbatim>\<open>list(self.sessions.items())\<close> and deletes from
  the dict itself.
\<close>

definition expire_step ::
  "string set \<Rightarrow> real \<Rightarrow> real \<Rightarrow> string \<times> session \<Rightarrow>
   session list \<times> (string \<times> session) list \<Rightarrow> session list \<times> (string \<times> session) list" where
  "expire_step seen now grace item acc =
     (if fst item \<in> seen then acc
      else if now - last_seen (snd item) \<ge> grace
        then (fst acc @ [snd item], AList.delete (fst item) (snd acc))
      else acc)"

definition expire ::
  "string set \<Rightarrow> real \<Rightarrow> real \<Rightarrow> (string \<times> session) list \<Rightarrow>
   session list \<times> (string \<times> session) list" where
  "expire seen now grace ss = fold (expire_step seen now grace) ss ([], ss)"

definition ended_record :: "app \<Rightarrow> string \<Rightarrow> session \<Rightarrow> ended" where
  "ended_record a ts sess =
     (let duration = last_seen sess - first_seen sess;
          cont = container_for_port a (dst_port sess)
      in \<lparr>ended_ts = ts, src = src_ip sess, sport = src_port sess, dst = dst_ip sess,
          dport = dst_port sess, e_state = state sess,
          duration_s = py_int_of_float (max 0 duration), container = cont\<rparr>)"

text \<open>
  The loop \<^verbatim>\<open>for sess in ended: hist.append({...})\<close>; each iteration reads the wall
  clock once, for \<^verbatim>\<open>ended_ts\<close>.
\<close>

fun record_ended :: "app \<Rightarrow> (nat \<Rightarrow> string) \<Rightarrow> ended list \<Rightarrow> session list \<Rightarrow> ended list" where
  "record_ended a wall hist [] = hist"
| "record_ended a wall hist (sess # rest) =
     record_ended a (\<lambda>i. wall (Suc i)) (hist @ [ended_record a (wall 0) sess]) rest"

text \<open>
  \<^verbatim>\<open>hist.sort(key=lambda x: x.get("duration_s", 0), reverse=True)\<close>: a stable sort,
  largest duration first, entries of equal duration in their former order. Every entry
  has its \<^verbatim>\<open>duration_s\<close>, so the default of \<^verbatim>\<open>.get\<close> is not used.
\<close>

definition sort_history :: "ended list \<Rightarrow> ended list" where
  "sort_history hist = sort_key (\<lambda>x. - duration_s x) hist"

text \<open>
  \<^verbatim>\<open>update_sessions\<close> in its four phases: the first loop over the rows, the expiry loop,
  the appending of the ended sessions to the history, and the ranking and truncation.
\<close>

definition ingest :: "app \<Rightarrow> env \<Rightarrow> int list \<Rightarrow> real \<Rightarrow> loop" where
  "ingest a0 e watched_ports now =
     fold (ingest_row (set watched_ports) now) (env_rows e)
       \<lparr>l_app = a0\<lparr>host_ips := set (env_host_ips e)\<rparr>,
        state_counts = Map.empty, seen_keys = {}\<rparr>"

definition expired ::
  "app \<Rightarrow> env \<Rightarrow> int list \<Rightarrow> real \<Rightarrow> session list \<times> (string \<times> session) list" where
  "expired a0 e watched_ports now =
     (let l = ingest a0 e watched_ports now;
          grace = args_grace (l_app l)
      in expire (seen_keys l) now grace (sessions (l_app l)))"

definition appended_history :: "app \<Rightarrow> env \<Rightarrow> int list \<Rightarrow> real \<Rightarrow> ended list" where
  "appended_history a0 e watched_ports now =
     (let a = l_app (ingest a0 e watched_ports now);
          hist = (case ended_history (stats a) of None \<Rightarrow> [] | Some h \<Rightarrow> h)
      in record_ended a (env_wall e) hist (fst (expired a0 e watched_ports now)))"

definition update_sessions ::
  "app \<Rightarrow> env \<Rightarrow> int list \<Rightarrow> real \<Rightarrow> app \<times> (string \<rightharpoonup> int) \<times> session list" where
  "update_sessions a0 e watched_ports now =
     (let l = ingest a0 e watched_ports now;
          a = l_app l;
          hist = slice_to (args_history_n a)
                   (sort_history (appended_history a0 e watched_ports now));
          a' = a\<lparr>sessions := snd (expired a0 e watched_ports now),
                  stats := (stats a)\<lparr>ended_history := Some hist\<rparr>\<rparr>
      in (a', state_counts l, map snd (sessions a')))"

subsection \<open>Key handlers and the main loop\<close>

definition toggle_private :: "app \<Rightarrow> app" where
  "toggle_private a =
     (let a' = a\<lparr>hide_private := \<not> hide_private a\<rparr>
      in set_action a' (''Private sources -> '' @ (if hide_private a' then ''HIDE'' else ''SHOW'')))"

definition toggle_admin :: "app \<Rightarrow> app" where
  "toggle_admin a =
     (let a' = a\<lparr>hide_admin := \<not> hide_admin a\<rparr>
      in set_action a' (''Admin ports -> '' @ (if hide_admin a' then ''HIDE'' else ''SHOW'')))"

definition toggle_mode :: "app \<Rightarrow> app" where
  "toggle_mode a =
     (let a' = a\<lparr>mode := (if mode a = ''ALL'' then ''EST'' else ''ALL'')\<rparr>
      in set_action a' (''Mode -> '' @ mode a'))"

text \<open>
  What happens to the session store in \<^verbatim>\<open>App.run\<close>: a reconciliation pass with the
  clock reading \<open>now\<close> and the watched ports of that iteration, or one of the keys that
  change a filter.
\<close>

datatype event = Poll env "int list" real | KeyP | KeyA | KeyE

fun handle :: "app \<Rightarrow> event \<Rightarrow> app" where
  "handle a (Poll e watched_ports now) = fst (update_sessions a e watched_ports now)"
| "handle a KeyP = toggle_private a"
| "handle a KeyA = toggle_admin a"
| "handle a KeyE = toggle_mode a"

definition run :: "app \<Rightarrow> event list \<Rightarrow> app" where
  "run a evs = foldl handle a evs"

fun poll_times :: "event list \<Rightarrow> real list" where
  "poll_times [] = []"
| "poll_times (Poll e w now # evs) = now # poll_times evs"
| "poll_times (ev # evs) = poll_times evs"

subsection \<open>Persistence: \<^verbatim>\<open>load_stats\<close>, \<^verbatim>\<open>save_stats\<close>, \<^verbatim>\<open>reset_lifetime_hits\<close>\<close>

text \<open>
  The stats file is kept as what reading and parsing it gives: no file; a file whose
  \<^verbatim>\<open>read_text\<close> or \<^verbatim>\<open>json.loads\<close> raises the given exception; JSON text that is not an
  object; or an object. \<^verbatim>\<open>json.dumps\<close> followed by \<^verbatim>\<open>json.loads\<close> is taken to give the
  document back (its keys are strings and its values are strings, integers, lists and
  dicts of these), so a successful write leaves \<open>Object\<close> of the written document.
  \<open>write_error\<close> is the exception that \<^verbatim>\<open>_atomic_write\<close> raises, if it raises one; the
  file is then as before. \<^verbatim>\<open>Path.home()\<close> and \<^verbatim>\<open>p.exists()\<close>, which \<^verbatim>\<open>load_stats\<close>
  calls outside its \<^verbatim>\<open>try\<close> block, are taken to return.
\<close>

datatype file_state = Absent | Unloadable error | NotDict | Object stats

record disk =
  stats_file :: file_state
  write_error :: "error option"

definition repr :: "error \<Rightarrow> string" where
  "repr e = (case e of
               ValueError m \<Rightarrow> ''ValueError('' @ [CHR 0x27] @ m @ [CHR 0x27] @ '')''
             | IndexError \<Rightarrow> ''IndexError()''
             | OSError m \<Rightarrow> ''OSError('' @ [CHR 0x27] @ m @ [CHR 0x27] @ '')''
             | Raised r \<Rightarrow> r)"

definition fresh_stats :: "(nat \<Rightarrow> string) \<Rightarrow> string list \<Rightarrow> stats" where
  "fresh_stats wall ns =
     \<lparr>version = Some VERSION, created = Some (wall 0), updated = Some (wall 1),
      notes_list = Some ns, theme = Some THEMES_0,
      lifetime_port_hits = Some Map.empty, ended_history = Some []\<rparr>"

text \<open>\<^verbatim>\<open>d.setdefault(k, v)\<close> on one key.\<close>

definition setdefault :: "'a option \<Rightarrow> 'a \<Rightarrow> 'a option" where
  "setdefault cur v = (case cur of None \<Rightarrow> Some v | Some x \<Rightarrow> Some x)"

text \<open>The \<^verbatim>\<open>try\<close> block of \<^verbatim>\<open>load_stats\<close>.\<close>

definition load_stats_try :: "file_state \<Rightarrow> error + stats" where
  "load_stats_try f =
     (case f of
        Absent \<Rightarrow> Inl (Raised ''FileNotFoundError()'')
      | Unloadable e \<Rightarrow> Inl e
      | NotDict \<Rightarrow> Inl (ValueError ''stats not dict'')
      | Object d \<Rightarrow>
          Inr (d\<lparr>notes_list := setdefault (notes_list d) [],
                 lifetime_port_hits := setdefault (lifetime_port_hits d) Map.empty,
                 ended_history := setdefault (ended_history d) [],
                 theme := setdefault (theme d) THEMES_0,
                 version := Some VERSION\<rparr>))"

definition load_stats :: "disk \<Rightarrow> (nat \<Rightarrow> string) \<Rightarrow> stats" where
  "load_stats dk wall =
     (case stats_file dk of
        Absent \<Rightarrow> fresh_stats wall []
      | f \<Rightarrow> (case load_stats_try f of
                Inr d \<Rightarrow> d
              | Inl e \<Rightarrow> fresh_stats wall
                          [''Failed to load stats; started new. error='' @ repr e]))"

definition atomic_write :: "disk \<Rightarrow> stats \<Rightarrow> error + disk" where
  "atomic_write dk d =
     (case write_error dk of
        None \<Rightarrow> Inr (dk\<lparr>stats_file := Object d\<rparr>)
      | Some err \<Rightarrow> Inl err)"

text \<open>
  \<^verbatim>\<open>save_stats\<close> stamps the dict in place and then writes it: the stamped document is
  returned also when the write raises.
\<close>

definition save_stats :: "stats \<Rightarrow> string \<Rightarrow> disk \<Rightarrow> stats \<times> (error + disk)" where
  "save_stats st ts dk =
     (let st' = st\<lparr>version := Some VERSION, updated := Some ts\<rparr>
      in (st', atomic_write dk st'))"

definition reset_lifetime_hits :: "app \<Rightarrow> string \<Rightarrow> disk \<Rightarrow> app \<times> (error + disk)" where
  "reset_lifetime_hits a ts dk =
     (let a1 = a\<lparr>stats := (stats a)\<lparr>lifetime_port_hits := Some Map.empty\<rparr>\<rparr>;
          a2 = set_action a1 ''Reset lifetime port hits (history kept)'';
          r = save_stats (stats a2) ts dk
      in (a2\<lparr>stats := fst r\<rparr>, snd r))"

subsection \<open>Notions of the specification\<close>

text \<open>
  A flow record is discarded by a pass, in the words of the specification: its
  destination port is not watched, or its source is private while private sources are
  hidden, or its destination port is an admin port while admin ports are hidden, or its
  state is not \<^verbatim>\<open>ESTABLISHED\<close> in established-only mode.
\<close>

definition discarded :: "app \<Rightarrow> int list \<Rightarrow> row \<Rightarrow> bool" where
  "discarded a watched_ports r \<longleftrightarrow>
     r_dport r \<notin> set watched_ports
     \<or> (hide_private a \<and> is_private_ipv4 (r_src r))
     \<or> (hide_admin a \<and> r_dport r \<in> {64295, 64294, 64297})
     \<or> (mode a = ''EST'' \<and> r_state r \<noteq> ''ESTABLISHED'')"

text \<open>The surviving records of a poll, and the flow keys observed in it.\<close>

definition surviving :: "app \<Rightarrow> int list \<Rightarrow> row list \<Rightarrow> row list" where
  "surviving a watched_ports rows = filter (\<lambda>r. \<not> discarded a watched_ports r) rows"

definition observed :: "app \<Rightarrow> int list \<Rightarrow> row list \<Rightarrow> string set" where
  "observed a watched_ports rows = set (map flow_key (surviving a watched_ports rows))"

text \<open>The keys of the session store.\<close>

definition tracked :: "app \<Rightarrow> string set" where
  "tracked a = set (map fst (sessions a))"

text \<open>
  The records that are the first observation of a flow key: those whose key is neither
  in \<open>ks\<close> nor carried by an earlier record of the list.
\<close>

fun first_new :: "string set \<Rightarrow> row list \<Rightarrow> row list" where
  "first_new ks [] = []"
| "first_new ks (r # rs) =
     (if flow_key r \<in> ks then first_new ks rs
      else r # first_new (insert (flow_key r) ks) rs)"


text \<open>
  A stats document as \<^verbatim>\<open>load_stats\<close> hands it to the program: the version tag is the
  program's, and the keys that \<^verbatim>\<open>load_stats\<close> defaults are there.
\<close>

definition is_document :: "stats \<Rightarrow> bool" where
  "is_document d \<longleftrightarrow>
     version d = Some VERSION \<and> notes_list d \<noteq> None \<and> theme d \<noteq> None
     \<and> lifetime_port_hits d \<noteq> None \<and> ended_history d \<noteq> None"

subsection \<open>Concrete inputs\<close>

definition ex_wall :: "nat \<Rightarrow> string" where
  "ex_wall i = ''2026-01-01T00:00:0'' @ [digit_char (i mod 10)]"

definition ex_stats :: stats where
  "ex_stats = fresh_stats ex_wall []"

definition ex_app :: app where
  "ex_app = \<lparr>args_grace = DEFAULT_GRACE_S, args_history_n = DEFAULT_HISTORY_N, stats = ex_stats,
             hide_private = True, hide_admin = True, mode = ''ALL'', last_action = [],
             host_ips = {}, sessions = [], port_hits_run = Map.empty,
             docker_port_map = [22 \<mapsto> ''cowrie'']\<rparr>"

definition ex_row :: row where
  "ex_row = \<lparr>r_timeout = 300, r_state = ''ESTABLISHED'', r_src = ''203.0.113.9'',
             r_dst = ''198.51.100.7'', r_sport = 4444, r_dport = 22,
             r_rsrc = ''198.51.100.7'', r_rdst = ''203.0.113.9'', r_rsport = 22,
             r_rdport = 4444\<rparr>"

definition ex_env :: "row list \<Rightarrow> env" where
  "ex_env rows = \<lparr>env_host_ips = [''198.51.100.7''], env_rows = rows, env_wall = ex_wall\<rparr>"

definition ex_disk :: disk where
  "ex_disk = \<lparr>stats_file = Absent, write_error = None\<rparr>"

text \<open>
  A flow first seen at time 0 and last seen at time 5, as tracked after the poll at
  time 5.
\<close>

definition ex_key :: string where
  "ex_key = ''203.0.113.9:4444->198.51.100.7:22''"

definition ex_session :: session where
  "ex_session = \<lparr>key = ex_key, src_ip = ''203.0.113.9'', src_port = 4444,
                 dst_ip = ''198.51.100.7'', dst_port = 22, state = ''ESTABLISHED'',
                 timeout_s = 300, first_seen = 0, last_seen = 5\<rparr>"

definition ex_app_tracking :: app where
  "ex_app_tracking = ex_app\<lparr>sessions := [(ex_key, ex_session)]\<rparr>"

text \<open>
  Two polls that see the flow of \<^const>\<open>ex_row\<close>, with the wall clock \<^verbatim>\<open>time.time()\<close> set
  back by two seconds between them, and the application after them.
\<close>

definition ex_poll_5 :: event where
  "ex_poll_5 = Poll (ex_env [ex_row]) [22] 5"

definition ex_poll_3 :: event where
  "ex_poll_3 = Poll (ex_env [ex_row]) [22] 3"

definition ex_app_clock_back :: app where
  "ex_app_clock_back = run ex_app [ex_poll_5, ex_poll_3]"



section \<open>Properties\<close>

subsection \<open>The private-address predicate\<close>










subsection \<open>Loading, saving and resetting the stats document\<close>

lemma fresh_stats_document: "is_document (fresh_stats wall ns)"
  by (simp add: is_document_def fresh_stats_def)




lemma load_stats_Object:
  "stats_file dk = Object d \<Longrightarrow>
   load_stats dk wall =
     d\<lparr>notes_list := setdefault (notes_list d) [],
       lifetime_port_hits := setdefault (lifetime_port_hits d) Map.empty,
       ended_history := setdefault (ended_history d) [],
       theme := setdefault (theme d) THEMES_0,
       version := Some VERSION\<rparr>"
  by (simp add: load_stats_def load_stats_try_def)





text \<open>
  Claim C6. Saving a stats document and loading it back gives the document that was
  saved: the loaded document is the one \<^verbatim>\<open>save_stats\<close> stamped and wrote, which is the
  document passed in with only \<open>updated\<close> replaced. The documents are those the program
  holds (\<^const>\<open>is_document\<close>, which every result of \<^verbatim>\<open>load_stats\<close> satisfies), and the
  write succeeds.
\<close>

theorem save_load_round_trip:
  assumes "is_document st" and "write_error dk = None"
  shows "\<exists>dk'. snd (save_stats st ts dk) = Inr dk'
           \<and> load_stats dk' wall = fst (save_stats st ts dk)
           \<and> load_stats dk' wall = st\<lparr>updated := Some ts\<rparr>"
  using assms
  by (auto simp: save_stats_def atomic_write_def load_stats_Object
        is_document_def setdefault_def Let_def)

theorem save_load_round_trip_witness:
  "is_document ex_stats \<and> write_error ex_disk = None
   \<and> (\<exists>dk'. snd (save_stats ex_stats ''2026-01-02'' ex_disk) = Inr dk'
         \<and> load_stats dk' ex_wall = ex_stats\<lparr>updated := Some ''2026-01-02''\<rparr>)"
proof -
  have d: "is_document ex_stats" by (simp add: ex_stats_def fresh_stats_document)
  have w: "write_error ex_disk = None" by (simp add: ex_disk_def)
  show ?thesis using d w save_load_round_trip[OF d w, of "''2026-01-02''" ex_wall] by blast
qed

text \<open>
  Claim C9, as amended. \<^verbatim>\<open>reset_lifetime_hits\<close> sets the lifetime counters to the empty
  mapping and, through the \<^verbatim>\<open>save_stats\<close> it ends with, stamps \<open>version\<close> and \<open>updated\<close>;
  every other field of the stats document, the ended history in particular, is as
  before. This holds whether or not the write to the file succeeds.
\<close>

theorem reset_lifetime_hits_frame:
  "fst (reset_lifetime_hits a ts dk) =
     a\<lparr>stats := (stats a)\<lparr>lifetime_port_hits := Some Map.empty,
                           version := Some VERSION, updated := Some ts\<rparr>,
       last_action := ''Reset lifetime port hits (history kept)''\<rparr>
   \<and> ended_history (stats (fst (reset_lifetime_hits a ts dk))) = ended_history (stats a)
   \<and> notes_list (stats (fst (reset_lifetime_hits a ts dk))) = notes_list (stats a)
   \<and> theme (stats (fst (reset_lifetime_hits a ts dk))) = theme (stats a)
   \<and> created (stats (fst (reset_lifetime_hits a ts dk))) = created (stats a)
   \<and> lifetime_port_hits (stats (fst (reset_lifetime_hits a ts dk))) = Some Map.empty"
  by (simp add: reset_lifetime_hits_def save_stats_def set_action_def Let_def)

text \<open>
  Claim C9 as stated fails: after a reset the document is not the former document with
  only the counters emptied, since \<open>updated\<close> holds the time of the reset.
\<close>

theorem reset_lifetime_hits_changes_updated:
  "stats (fst (reset_lifetime_hits ex_app ''2026-01-02'' ex_disk))
     \<noteq> (stats ex_app)\<lparr>lifetime_port_hits := Some Map.empty\<rparr>"
proof
  assume "stats (fst (reset_lifetime_hits ex_app ''2026-01-02'' ex_disk))
     = (stats ex_app)\<lparr>lifetime_port_hits := Some Map.empty\<rparr>"
  then have "updated (stats (fst (reset_lifetime_hits ex_app ''2026-01-02'' ex_disk)))
     = updated ((stats ex_app)\<lparr>lifetime_port_hits := Some Map.empty\<rparr>)" by simp
  then show False
    by (simp add: reset_lifetime_hits_def save_stats_def set_action_def Let_def ex_app_def
         ex_stats_def fresh_stats_def ex_wall_def digit_char_def)
qed

subsection \<open>The first loop of the reconciliation pass\<close>

lemma track_row_config:
  "hide_private (l_app (track_row now r l)) = hide_private (l_app l)"
  "hide_admin (l_app (track_row now r l)) = hide_admin (l_app l)"
  "mode (l_app (track_row now r l)) = mode (l_app l)"
  "args_grace (l_app (track_row now r l)) = args_grace (l_app l)"
  "args_history_n (l_app (track_row now r l)) = args_history_n (l_app l)"
  "docker_port_map (l_app (track_row now r l)) = docker_port_map (l_app l)"
  "host_ips (l_app (track_row now r l)) = host_ips (l_app l)"
  "last_action (l_app (track_row now r l)) = last_action (l_app l)"
  "ended_history (stats (l_app (track_row now r l))) = ended_history (stats (l_app l))"
  by (simp_all add: track_row_def Let_def split: option.splits)

lemma discarded_cong:
  "hide_private a = hide_private b \<Longrightarrow> hide_admin a = hide_admin b \<Longrightarrow> mode a = mode b \<Longrightarrow>
   discarded a wp r = discarded b wp r"
  by (simp add: discarded_def)

lemma discarded_track_row [simp]:
  "discarded (l_app (track_row now r' l)) wp r = discarded (l_app l) wp r"
  by (rule discarded_cong) (simp_all add: track_row_config)

lemma ingest_row_eq:
  "ingest_row (set wp) now r l = (if discarded (l_app l) wp r then l else track_row now r l)"
  by (auto simp: ingest_row_def discarded_def DEFAULT_EXCLUDE_ADMIN_PORTS_def)

lemma fold_track_config:
  "hide_private (l_app (fold (track_row now) rows l)) = hide_private (l_app l)"
  "hide_admin (l_app (fold (track_row now) rows l)) = hide_admin (l_app l)"
  "mode (l_app (fold (track_row now) rows l)) = mode (l_app l)"
  "args_grace (l_app (fold (track_row now) rows l)) = args_grace (l_app l)"
  "args_history_n (l_app (fold (track_row now) rows l)) = args_history_n (l_app l)"
  "docker_port_map (l_app (fold (track_row now) rows l)) = docker_port_map (l_app l)"
  "host_ips (l_app (fold (track_row now) rows l)) = host_ips (l_app l)"
  "last_action (l_app (fold (track_row now) rows l)) = last_action (l_app l)"
  "ended_history (stats (l_app (fold (track_row now) rows l))) = ended_history (stats (l_app l))"
  by (induction rows arbitrary: l; simp add: track_row_config)+

lemma fold_ingest_row:
  "fold (ingest_row (set wp) now) rows l = fold (track_row now) (surviving (l_app l) wp rows) l"
proof (induction rows arbitrary: l)
  case Nil
  show ?case by (simp add: surviving_def)
next
  case (Cons r rows)
  have s: "surviving (l_app (track_row now r l)) wp rows = surviving (l_app l) wp rows"
    by (simp add: surviving_def)
  show ?case
  proof (cases "discarded (l_app l) wp r")
    case True
    then have "ingest_row (set wp) now r l = l" by (simp add: ingest_row_eq)
    then show ?thesis using Cons.IH[of l] True by (simp add: surviving_def)
  next
    case False
    then have i: "ingest_row (set wp) now r l = track_row now r l" by (simp add: ingest_row_eq)
    show ?thesis using Cons.IH[of "track_row now r l"] False i s by (simp add: surviving_def)
  qed
qed

lemma surviving_host_ips [simp]:
  "surviving (a\<lparr>host_ips := h\<rparr>) wp rows = surviving a wp rows"
  by (simp add: surviving_def discarded_def)

lemma ingest_eq:
  "ingest a e wp now =
     fold (track_row now) (surviving a wp (env_rows e))
       \<lparr>l_app = a\<lparr>host_ips := set (env_host_ips e)\<rparr>, state_counts = Map.empty, seen_keys = {}\<rparr>"
  by (simp add: ingest_def fold_ingest_row)

lemma seen_keys_track_row [simp]:
  "seen_keys (track_row now r l) = insert (flow_key r) (seen_keys l)"
  by (simp add: track_row_def Let_def split: option.splits)

lemma seen_keys_fold_track:
  "seen_keys (fold (track_row now) rows l) = seen_keys l \<union> set (map flow_key rows)"
  by (induction rows arbitrary: l) auto

lemma seen_keys_ingest: "seen_keys (ingest a e wp now) = observed a wp (env_rows e)"
  by (simp add: ingest_eq seen_keys_fold_track observed_def)

lemma sessions_track_row:
  "sessions (l_app (track_row now r l)) =
     AList.update (flow_key r)
       (case map_of (sessions (l_app l)) (flow_key r) of
          None \<Rightarrow> \<lparr>key = flow_key r, src_ip = r_src r, src_port = r_sport r, dst_ip = r_dst r,
                    dst_port = r_dport r, state = r_state r, timeout_s = r_timeout r,
                    first_seen = now, last_seen = now\<rparr>
        | Some s \<Rightarrow> s\<lparr>state := r_state r, timeout_s := r_timeout r, last_seen := now\<rparr>)
       (sessions (l_app l))"
  by (simp add: track_row_def Let_def split: option.splits)

lemma distinct_track_row:
  "distinct (map fst (sessions (l_app l))) \<Longrightarrow>
   distinct (map fst (sessions (l_app (track_row now r l))))"
  by (simp add: sessions_track_row distinct_update)

lemma distinct_fold_track:
  "distinct (map fst (sessions (l_app l))) \<Longrightarrow>
   distinct (map fst (sessions (l_app (fold (track_row now) rows l))))"
  by (induction rows arbitrary: l) (simp_all add: distinct_track_row)

lemma map_of_track_row_other:
  "k \<noteq> flow_key r \<Longrightarrow>
   map_of (sessions (l_app (track_row now r l))) k = map_of (sessions (l_app l)) k"
  by (simp add: sessions_track_row update_conv')


lemma keys_track_row:
  "fst ` set (sessions (l_app (track_row now r l))) =
     insert (flow_key r) (fst ` set (sessions (l_app l)))"
  by (simp add: sessions_track_row dom_update)


subsection \<open>The expiry loop\<close>

lemma fold_expire_step:
  "fold (expire_step seen now grace) xs (e, c) =
     (e @ map snd (filter (\<lambda>x. fst x \<notin> seen \<and> now - last_seen (snd x) \<ge> grace) xs),
      filter (\<lambda>y. fst y \<notin> fst ` set (filter (\<lambda>x. fst x \<notin> seen \<and> now - last_seen (snd x) \<ge> grace) xs)) c)"
proof (induction xs arbitrary: e c)
  case Nil
  show ?case by simp
next
  case (Cons x xs)
  let ?P = "\<lambda>x. fst x \<notin> seen \<and> now - last_seen (snd x) \<ge> grace"
  show ?case
  proof (cases "?P x")
    case True
    then have "expire_step seen now grace x (e, c) = (e @ [snd x], AList.delete (fst x) c)"
      by (simp add: expire_step_def)
    moreover have "filter (\<lambda>y. fst y \<notin> fst ` set (filter ?P xs)) (AList.delete (fst x) c)
                 = filter (\<lambda>y. fst y \<notin> fst ` set (filter ?P (x # xs))) c"
      using True by (auto simp: AList.delete_eq intro!: filter_cong)
    ultimately show ?thesis
      using True Cons.IH[of "e @ [snd x]" "AList.delete (fst x) c"] by simp
  next
    case False
    then have "expire_step seen now grace x (e, c) = (e, c)"
      by (auto simp: expire_step_def)
    then show ?thesis using False Cons.IH[of e c] by simp
  qed
qed

lemma expire_eq:
  assumes "distinct (map fst ss)"
  shows "expire seen now grace ss =
     (map snd (filter (\<lambda>x. fst x \<notin> seen \<and> now - last_seen (snd x) \<ge> grace) ss),
      filter (\<lambda>x. fst x \<in> seen \<or> now - last_seen (snd x) < grace) ss)"
proof -
  let ?P = "\<lambda>x. fst x \<notin> seen \<and> now - last_seen (snd x) \<ge> grace"
  have "filter (\<lambda>y. fst y \<notin> fst ` set (filter ?P ss)) ss = filter (\<lambda>x. \<not> ?P x) ss"
  proof (rule filter_cong[OF refl])
    fix y assume y: "y \<in> set ss"
    show "(fst y \<notin> fst ` set (filter ?P ss)) = (\<not> ?P y)"
    proof
      assume "fst y \<notin> fst ` set (filter ?P ss)"
      then show "\<not> ?P y" using y by force
    next
      assume n: "\<not> ?P y"
      show "fst y \<notin> fst ` set (filter ?P ss)"
      proof
        assume "fst y \<in> fst ` set (filter ?P ss)"
        then obtain z where z: "z \<in> set ss" "?P z" "fst z = fst y" by auto
        then have "z = y" using assms y by (metis eq_key_imp_eq_value prod.collapse)
        then show False using z n by simp
      qed
    qed
  qed
  then show ?thesis by (simp add: expire_def fold_expire_step not_le)
qed

subsection \<open>Appending to the history\<close>

lemma record_ended_append:
  "record_ended a wall hist ss = hist @ record_ended a wall [] ss"
proof (induction ss arbitrary: wall hist)
  case Nil
  show ?case by simp
next
  case (Cons s ss)
  show ?case
    using Cons.IH[of "\<lambda>i. wall (Suc i)" "hist @ [ended_record a (wall 0) s]"]
          Cons.IH[of "\<lambda>i. wall (Suc i)" "[ended_record a (wall 0) s]"]
    by simp
qed

lemma length_record_ended: "length (record_ended a wall [] ss) = length ss"
proof (induction ss arbitrary: wall)
  case Nil
  show ?case by simp
next
  case (Cons s ss)
  show ?case
    using record_ended_append[of a "\<lambda>i. wall (Suc i)" "[ended_record a (wall 0) s]" ss]
          Cons.IH[of "\<lambda>i. wall (Suc i)"]
    by simp
qed

lemma nth_record_ended:
  "i < length ss \<Longrightarrow> record_ended a wall [] ss ! i = ended_record a (wall i) (ss ! i)"
proof (induction ss arbitrary: wall i)
  case Nil
  then show ?case by simp
next
  case (Cons s ss)
  have e: "record_ended a wall [] (s # ss) =
             ended_record a (wall 0) s # record_ended a (\<lambda>i. wall (Suc i)) [] ss"
    using record_ended_append[of a "\<lambda>i. wall (Suc i)" "[ended_record a (wall 0) s]" ss]
    by simp
  show ?case
  proof (cases i)
    case 0
    then show ?thesis unfolding e by simp
  next
    case (Suc j)
    then show ?thesis unfolding e using Cons.IH[of j "\<lambda>i. wall (Suc i)"] Cons.prems by simp
  qed
qed

lemma duration_s_ended_record:
  "duration_s (ended_record a ts s) = \<lfloor>max 0 (last_seen s - first_seen s)\<rfloor>"
  by (simp add: ended_record_def py_int_of_float_def)

subsection \<open>The pass as a whole\<close>

lemma ingest_config:
  "hide_private (l_app (ingest a e wp now)) = hide_private a"
  "hide_admin (l_app (ingest a e wp now)) = hide_admin a"
  "mode (l_app (ingest a e wp now)) = mode a"
  "args_grace (l_app (ingest a e wp now)) = args_grace a"
  "args_history_n (l_app (ingest a e wp now)) = args_history_n a"
  "docker_port_map (l_app (ingest a e wp now)) = docker_port_map a"
  "last_action (l_app (ingest a e wp now)) = last_action a"
  "ended_history (stats (l_app (ingest a e wp now))) = ended_history (stats a)"
  by (simp_all add: ingest_eq fold_track_config)

lemma distinct_ingest:
  "distinct (map fst (sessions a)) \<Longrightarrow> distinct (map fst (sessions (l_app (ingest a e wp now))))"
  by (simp add: ingest_eq distinct_fold_track)



lemma expired_eq:
  assumes "distinct (map fst (sessions a))"
  shows "expired a e wp now =
     (map snd (filter (\<lambda>x. fst x \<notin> observed a wp (env_rows e)
                           \<and> now - last_seen (snd x) \<ge> args_grace a)
                (sessions (l_app (ingest a e wp now)))),
      filter (\<lambda>x. fst x \<in> observed a wp (env_rows e) \<or> now - last_seen (snd x) < args_grace a)
        (sessions (l_app (ingest a e wp now))))"
  using expire_eq[OF distinct_ingest[OF assms, of e wp now]]
  by (simp add: expired_def Let_def seen_keys_ingest ingest_config)

lemma sessions_update_sessions:
  "sessions (fst (update_sessions a e wp now)) = snd (expired a e wp now)"
  by (simp add: update_sessions_def Let_def)

lemma sessions_after_pass:
  assumes d: "distinct (map fst (sessions a))"
  shows "sessions (fst (update_sessions a e wp now)) =
     filter (\<lambda>x. fst x \<in> observed a wp (env_rows e) \<or> now - last_seen (snd x) < args_grace a)
        (sessions (l_app (ingest a e wp now)))"
  unfolding sessions_update_sessions expired_eq[OF d] by (rule snd_conv)

lemma ended_record_cong:
  "docker_port_map a = docker_port_map b \<Longrightarrow> ended_record a ts s = ended_record b ts s"
  by (simp add: ended_record_def container_for_port_def)

lemma record_ended_cong:
  "docker_port_map a = docker_port_map b \<Longrightarrow> record_ended a wall hist ss = record_ended b wall hist ss"
  by (induction ss arbitrary: wall hist) (simp_all add: ended_record_cong[of a b])

lemma appended_history_eq:
  "appended_history a e wp now =
     (case ended_history (stats a) of None \<Rightarrow> [] | Some h \<Rightarrow> h)
     @ record_ended a (env_wall e) [] (fst (expired a e wp now))"
  using record_ended_append[of "l_app (ingest a e wp now)" "env_wall e"
          "case ended_history (stats a) of None \<Rightarrow> [] | Some h \<Rightarrow> h" "fst (expired a e wp now)"]
        record_ended_cong[of "l_app (ingest a e wp now)" a "env_wall e" "[]" "fst (expired a e wp now)"]
  by (simp add: appended_history_def Let_def ingest_config)


lemma update_sessions_config:
  "hide_private (fst (update_sessions a e wp now)) = hide_private a"
  "hide_admin (fst (update_sessions a e wp now)) = hide_admin a"
  "mode (fst (update_sessions a e wp now)) = mode a"
  "args_grace (fst (update_sessions a e wp now)) = args_grace a"
  "args_history_n (fst (update_sessions a e wp now)) = args_history_n a"
  "docker_port_map (fst (update_sessions a e wp now)) = docker_port_map a"
  by (simp_all add: update_sessions_def Let_def ingest_config)

lemma distinct_update_sessions:
  "distinct (map fst (sessions a)) \<Longrightarrow>
   distinct (map fst (sessions (fst (update_sessions a e wp now))))"
  using distinct_ingest[of a e wp now]
  by (simp add: sessions_after_pass distinct_map_filter)

lemma surviving_discarded:
  "discarded a wp r \<Longrightarrow> surviving a wp (pre @ r # post) = surviving a wp (pre @ post)"
  by (simp add: surviving_def)

lemma ingest_discarded:
  assumes "discarded a wp r"
  shows "ingest a (e\<lparr>env_rows := pre @ r # post\<rparr>) wp now = ingest a (e\<lparr>env_rows := pre @ post\<rparr>) wp now"
  by (simp add: ingest_eq surviving_discarded[OF assms])

text \<open>
  Claim C4. A flow record is discarded when its destination port is not watched, or its
  source is private while private sources are hidden, or its destination port is one of
  64295, 64294, 64297 while admin ports are hidden (whether or not that port is
  watched), or its state is not \<^verbatim>\<open>ESTABLISHED\<close> in established-only mode. The loop body
  then leaves the sessions, the counters, the state counts and the seen keys as they
  are, and the whole pass gives the result it gives without the record.
\<close>

theorem discarded_record_has_no_effect:
  assumes "r_dport r \<notin> set wp
           \<or> (hide_private a \<and> is_private_ipv4 (r_src r))
           \<or> (hide_admin a \<and> r_dport r \<in> {64295, 64294, 64297})
           \<or> (mode a = ''EST'' \<and> r_state r \<noteq> ''ESTABLISHED'')"
  shows "ingest_row (set wp) now r \<lparr>l_app = a, state_counts = cnt, seen_keys = seen\<rparr>
           = \<lparr>l_app = a, state_counts = cnt, seen_keys = seen\<rparr>
         \<and> update_sessions a (e\<lparr>env_rows := pre @ r # post\<rparr>) wp now
           = update_sessions a (e\<lparr>env_rows := pre @ post\<rparr>) wp now"
proof
  have d: "discarded a wp r" using assms by (simp add: discarded_def)
  then show "ingest_row (set wp) now r \<lparr>l_app = a, state_counts = cnt, seen_keys = seen\<rparr>
           = \<lparr>l_app = a, state_counts = cnt, seen_keys = seen\<rparr>"
    by (simp add: ingest_row_eq)
  have i: "ingest a (e\<lparr>env_rows := pre @ r # post\<rparr>) wp now
             = ingest a (e\<lparr>env_rows := pre @ post\<rparr>) wp now"
    by (rule ingest_discarded[OF d])
  have x: "expired a (e\<lparr>env_rows := pre @ r # post\<rparr>) wp now
             = expired a (e\<lparr>env_rows := pre @ post\<rparr>) wp now"
    by (simp add: expired_def i)
  have h: "appended_history a (e\<lparr>env_rows := pre @ r # post\<rparr>) wp now
             = appended_history a (e\<lparr>env_rows := pre @ post\<rparr>) wp now"
    by (simp add: appended_history_def i x)
  show "update_sessions a (e\<lparr>env_rows := pre @ r # post\<rparr>) wp now
           = update_sessions a (e\<lparr>env_rows := pre @ post\<rparr>) wp now"
    by (simp add: update_sessions_def i x h)
qed

theorem discarded_record_has_no_effect_witness:
  "(hide_admin ex_app \<and> (64295::int) \<in> {64295, 64294, 64297} \<and> (64295::int) \<in> set [22, 64295])
   \<and> update_sessions ex_app (ex_env [ex_row\<lparr>r_dport := 64295\<rparr>, ex_row]) [22, 64295] 5
       = update_sessions ex_app (ex_env [ex_row]) [22, 64295] 5"
  using discarded_record_has_no_effect[where r = "ex_row\<lparr>r_dport := 64295\<rparr>"
          and wp = "[22, 64295]" and a = ex_app and now = 5 and e = "ex_env []"
          and pre = "[]" and post = "[ex_row]"]
  by (simp add: ex_app_def ex_row_def ex_env_def)

subsection \<open>\<^verbatim>\<open>str\<close> of an integer is injective\<close>

lemma digit_val_digit_char: "d < 10 \<Longrightarrow> digit_val (digit_char d) = d"
proof -
  assume "d < 10"
  then have "d \<in> {0, 1, 2, 3, 4, 5, 6, 7, 8, 9}" by auto
  then show ?thesis by (auto simp: digit_val_def digit_char_def)
qed

lemma digit_char_is_digit: "d < 10 \<Longrightarrow> is_digit (digit_char d)"
proof -
  assume "d < 10"
  then have "d \<in> {0, 1, 2, 3, 4, 5, 6, 7, 8, 9}" by auto
  then show ?thesis by (auto simp: is_digit_def digit_char_def)
qed

lemma str_nat_small: "n < 10 \<Longrightarrow> str_nat n = [digit_char n]"
  by (subst str_nat.simps) simp

lemma str_nat_large: "\<not> n < 10 \<Longrightarrow> str_nat n = str_nat (n div 10) @ [digit_char (n mod 10)]"
  by (rule trans[OF str_nat.simps]) simp

lemma value_str_nat: "foldl (\<lambda>acc c. 10 * acc + digit_val c) 0 (str_nat n) = n"
proof (induction n rule: str_nat.induct)
  case (1 n)
  show ?case
  proof (cases "n < 10")
    case True
    then show ?thesis by (simp add: str_nat_small digit_val_digit_char)
  next
    case False
    have m: "n mod 10 < 10" by simp
    have "foldl (\<lambda>acc c. 10 * acc + digit_val c) 0 (str_nat n)
            = 10 * foldl (\<lambda>acc c. 10 * acc + digit_val c) 0 (str_nat (n div 10))
              + digit_val (digit_char (n mod 10))"
      by (simp add: str_nat_large[OF False])
    also have "\<dots> = 10 * (n div 10) + n mod 10"
      by (simp only: "1.IH"[OF False] digit_val_digit_char[OF m])
    also have "\<dots> = n" by simp
    finally show ?thesis .
  qed
qed

lemma str_nat_inj: "str_nat m = str_nat n \<longleftrightarrow> m = n"
proof
  assume "str_nat m = str_nat n"
  then have "foldl (\<lambda>acc c. 10 * acc + digit_val c) 0 (str_nat m)
           = foldl (\<lambda>acc c. 10 * acc + digit_val c) 0 (str_nat n)" by (rule arg_cong)
  then show "m = n" by (simp only: value_str_nat)
qed simp

lemma str_nat_digits: "\<forall>c \<in> set (str_nat n). is_digit c"
proof (induction n rule: str_nat.induct)
  case (1 n)
  show ?case
  proof (cases "n < 10")
    case True
    then show ?thesis by (simp add: str_nat_small digit_char_is_digit)
  next
    case False
    have m: "n mod 10 < 10" by simp
    show ?thesis
      using "1.IH"[OF False] digit_char_is_digit[OF m] by (simp add: str_nat_large[OF False])
  qed
qed

lemma str_nat_no_minus: "str_nat n \<noteq> CHR ''-'' # cs"
proof
  assume "str_nat n = CHR ''-'' # cs"
  then have "CHR ''-'' \<in> set (str_nat n)" by simp
  then have "is_digit CHR ''-''" using str_nat_digits[of n] by blast
  then show False by (simp add: is_digit_def)
qed

lemma str_int_inj: "str_int i = str_int j \<longleftrightarrow> i = j"
proof
  assume e: "str_int i = str_int j"
  show "i = j"
  proof (cases "i < 0")
    case True
    show ?thesis
    proof (cases "j < 0")
      case jn: True
      then have "nat (- i) = nat (- j)" using e True by (simp add: str_int_def str_nat_inj)
      then show ?thesis using True jn by simp
    next
      case False
      then show ?thesis
        using e[symmetric] True str_nat_no_minus[of "nat j" "str_nat (nat (- i))"]
        by (simp add: str_int_def)
    qed
  next
    case False
    show ?thesis
    proof (cases "j < 0")
      case True
      then show ?thesis
        using e False str_nat_no_minus[of "nat i" "str_nat (nat (- j))"]
        by (simp add: str_int_def)
    next
      case jp: False
      then have "nat i = nat j" using e False by (simp add: str_int_def str_nat_inj)
      then show ?thesis using False jp by simp
    qed
  qed
qed simp

subsection \<open>Evaluating the pass on the concrete inputs\<close>

lemma ex_key_eq: "flow_key ex_row = ex_key"
  by (simp add: flow_key_def ex_row_def ex_key_def str_int_def str_nat.simps digit_char_def)

lemma ingest_no_rows:
  "env_rows e = [] \<Longrightarrow> sessions (l_app (ingest a e wp now)) = sessions a"
  by (simp add: ingest_def)

lemma observed_no_rows: "observed a wp [] = {}"
  by (simp add: observed_def surviving_def)

lemma not_discarded_ex_row:
  "mode a = ''ALL'' \<Longrightarrow> \<not> discarded a [22] ex_row"
  by (simp add: discarded_def ex_row_def is_private_ipv4_def)

lemma observed_ex_row: "mode a = ''ALL'' \<Longrightarrow> observed a [22] [ex_row] = {ex_key}"
  by (simp add: observed_def surviving_def not_discarded_ex_row ex_key_eq)

lemma ingest_ex_row:
  assumes "mode a = ''ALL''"
  shows "sessions (l_app (ingest a (ex_env [ex_row]) [22] now)) =
     AList.update ex_key
       (case map_of (sessions a) ex_key of
          None \<Rightarrow> ex_session\<lparr>first_seen := now, last_seen := now\<rparr>
        | Some s \<Rightarrow> s\<lparr>state := ''ESTABLISHED'', timeout_s := 300, last_seen := now\<rparr>)
       (sessions a)"
proof -
  have "surviving a [22] (env_rows (ex_env [ex_row])) = [ex_row]"
    using not_discarded_ex_row[OF assms] by (simp add: surviving_def ex_env_def)
  moreover have "r_src ex_row = ''203.0.113.9''" "r_sport ex_row = 4444"
    "r_dst ex_row = ''198.51.100.7''" "r_dport ex_row = 22" "r_state ex_row = ''ESTABLISHED''"
    "r_timeout ex_row = 300"
    by (simp_all add: ex_row_def)
  ultimately show ?thesis
    by (simp add: ingest_eq sessions_track_row ex_key_eq ex_session_def split: option.splits)
qed

lemma ex_pass_new:
  assumes m: "mode a = ''ALL''" and s: "sessions a = []"
  shows "sessions (fst (update_sessions a (ex_env [ex_row]) [22] t)) =
           [(ex_key, ex_session\<lparr>first_seen := t, last_seen := t\<rparr>)]"
proof -
  have d: "distinct (map fst (sessions a))" by (simp add: s)
  have r: "env_rows (ex_env [ex_row]) = [ex_row]" by (simp add: ex_env_def)
  show ?thesis
    unfolding sessions_after_pass[OF d] ingest_ex_row[OF m] r observed_ex_row[OF m] s
    by simp
qed

lemma ex_pass_again:
  assumes m: "mode a = ''ALL''" and s: "sessions a = [(ex_key, s0)]"
  shows "sessions (fst (update_sessions a (ex_env [ex_row]) [22] t)) =
           [(ex_key, s0\<lparr>state := ''ESTABLISHED'', timeout_s := 300, last_seen := t\<rparr>)]"
proof -
  have d: "distinct (map fst (sessions a))" by (simp add: s)
  have r: "env_rows (ex_env [ex_row]) = [ex_row]" by (simp add: ex_env_def)
  show ?thesis
    unfolding sessions_after_pass[OF d] ingest_ex_row[OF m] r observed_ex_row[OF m] s
    by simp
qed

lemma ex_two_passes:
  "sessions (run ex_app [Poll (ex_env [ex_row]) [22] t, Poll (ex_env [ex_row]) [22] t']) =
     [(ex_key, ex_session\<lparr>first_seen := t, last_seen := t'\<rparr>)]"
proof -
  define a1 where "a1 = fst (update_sessions ex_app (ex_env [ex_row]) [22] t)"
  have m0: "mode ex_app = ''ALL''" and s0: "sessions ex_app = []" by (simp_all add: ex_app_def)
  have m: "mode a1 = ''ALL''" by (simp add: a1_def update_sessions_config m0)
  have s: "sessions a1 = [(ex_key, ex_session\<lparr>first_seen := t, last_seen := t\<rparr>)]"
    unfolding a1_def by (rule ex_pass_new[OF m0 s0])
  have "sessions (fst (update_sessions a1 (ex_env [ex_row]) [22] t')) =
          [(ex_key, ex_session\<lparr>first_seen := t, last_seen := t'\<rparr>)]"
    unfolding ex_pass_again[OF m s] by (simp add: ex_session_def)
  then show ?thesis by (simp add: run_def a1_def)
qed

lemma ex_second_pass:
  "sessions ex_app_clock_back = [(ex_key, ex_session\<lparr>first_seen := 5, last_seen := 3\<rparr>)]"
  unfolding ex_app_clock_back_def ex_poll_5_def ex_poll_3_def by (rule ex_two_passes)

lemma ex_clock_back_config:
  "args_grace ex_app_clock_back = 8"
  "docker_port_map ex_app_clock_back = [22 \<mapsto> ''cowrie'']"
  by (simp_all add: ex_app_clock_back_def run_def ex_poll_5_def ex_poll_3_def
        update_sessions_config ex_app_def DEFAULT_GRACE_S_def)

lemma ex_clock_back_expired:
  "fst (expired ex_app_clock_back (ex_env []) [22] 20) =
     [ex_session\<lparr>first_seen := 5, last_seen := 3\<rparr>]"
proof -
  have d: "distinct (map fst (sessions ex_app_clock_back))" by (simp add: ex_second_pass)
  have r: "env_rows (ex_env []) = []" by (simp add: ex_env_def)
  show ?thesis
    unfolding expired_eq[OF d] ingest_no_rows[OF r] r observed_no_rows ex_second_pass
    by (simp add: ex_clock_back_config)
qed

lemma ex_tracking_expired:
  "fst (expired ex_app_tracking (ex_env []) [22] 14) = [ex_session]"
proof -
  have d: "distinct (map fst (sessions ex_app_tracking))" by (simp add: ex_app_tracking_def)
  have r: "env_rows (ex_env []) = []" by (simp add: ex_env_def)
  show ?thesis
    unfolding expired_eq[OF d] ingest_no_rows[OF r] r observed_no_rows
    by (simp add: ex_app_tracking_def ex_app_def DEFAULT_GRACE_S_def ex_session_def)
qed

subsection \<open>Expiry of a tracked session\<close>

lemma map_of_filter_keep:
  assumes "distinct (map fst xs)" and "map_of xs k = Some v" and "P (k, v)"
  shows "map_of (filter P xs) k = Some v"
proof -
  have "(k, v) \<in> set (filter P xs)" using assms(2,3) by (auto dest: map_of_SomeD)
  moreover have "distinct (map fst (filter P xs))" using assms(1) by (simp add: distinct_map_filter)
  ultimately show ?thesis by (rule map_of_is_SomeI[rotated])
qed






subsection \<open>Several iterations of the main loop\<close>


lemma handle_distinct:
  "distinct (map fst (sessions a)) \<Longrightarrow> distinct (map fst (sessions (handle a ev)))"
  by (cases ev)
     (simp_all add: distinct_update_sessions toggle_private_def toggle_admin_def toggle_mode_def
        set_action_def Let_def)

lemma handle_grace: "args_grace (handle a ev) = args_grace a"
  by (cases ev)
     (simp_all add: update_sessions_config toggle_private_def toggle_admin_def toggle_mode_def
        set_action_def Let_def)

lemma handle_toggle_sessions:
  "sessions (toggle_private a) = sessions a"
  "sessions (toggle_admin a) = sessions a"
  "sessions (toggle_mode a) = sessions a"
  by (simp_all add: toggle_private_def toggle_admin_def toggle_mode_def set_action_def Let_def)



lemma run_Nil: "run a [] = a"
  by (simp add: run_def)





subsection \<open>Timestamps of tracked sessions\<close>

lemma set_update_subset: "set (AList.update k v al) \<subseteq> insert (k, v) (set al)"
  by (induction al) auto

lemma track_row_times:
  assumes "\<forall>x \<in> set (sessions (l_app l)). first_seen (snd x) \<le> last_seen (snd x) \<and> last_seen (snd x) \<le> now"
  shows "\<forall>x \<in> set (sessions (l_app (track_row now r l))).
           first_seen (snd x) \<le> last_seen (snd x) \<and> last_seen (snd x) \<le> now"
proof
  fix x assume x: "x \<in> set (sessions (l_app (track_row now r l)))"
  define v where "v = (case map_of (sessions (l_app l)) (flow_key r) of
          None \<Rightarrow> \<lparr>key = flow_key r, src_ip = r_src r, src_port = r_sport r, dst_ip = r_dst r,
                    dst_port = r_dport r, state = r_state r, timeout_s = r_timeout r,
                    first_seen = now, last_seen = now\<rparr>
        | Some s \<Rightarrow> s\<lparr>state := r_state r, timeout_s := r_timeout r, last_seen := now\<rparr>)"
  have u: "sessions (l_app (track_row now r l)) = AList.update (flow_key r) v (sessions (l_app l))"
    unfolding v_def by (rule sessions_track_row)
  have c: "x = (flow_key r, v) \<or> x \<in> set (sessions (l_app l))"
    using x set_update_subset[of "flow_key r" v "sessions (l_app l)"] unfolding u by blast
  have v: "first_seen v \<le> last_seen v \<and> last_seen v \<le> now"
  proof (cases "map_of (sessions (l_app l)) (flow_key r)")
    case None
    then show ?thesis by (simp add: v_def)
  next
    case (Some s)
    then have "(flow_key r, s) \<in> set (sessions (l_app l))" by (rule map_of_SomeD)
    then have "first_seen (snd (flow_key r, s)) \<le> last_seen (snd (flow_key r, s))
               \<and> last_seen (snd (flow_key r, s)) \<le> now" using assms by blast
    then show ?thesis using Some by (simp add: v_def)
  qed
  from c show "first_seen (snd x) \<le> last_seen (snd x) \<and> last_seen (snd x) \<le> now"
  proof
    assume "x = (flow_key r, v)"
    then show ?thesis using v by simp
  next
    assume "x \<in> set (sessions (l_app l))"
    then show ?thesis using assms by blast
  qed
qed

lemma fold_track_times:
  "\<forall>x \<in> set (sessions (l_app l)). first_seen (snd x) \<le> last_seen (snd x) \<and> last_seen (snd x) \<le> now \<Longrightarrow>
   \<forall>x \<in> set (sessions (l_app (fold (track_row now) rows l))).
      first_seen (snd x) \<le> last_seen (snd x) \<and> last_seen (snd x) \<le> now"
proof (induction rows arbitrary: l)
  case Nil
  then show ?case by simp
next
  case (Cons r rows)
  show ?case using Cons.IH[OF track_row_times[OF Cons.prems, of r]] by simp
qed

lemma ingest_times:
  assumes i: "\<forall>x \<in> set (sessions a). first_seen (snd x) \<le> last_seen (snd x) \<and> last_seen (snd x) \<le> now"
  shows "\<forall>x \<in> set (sessions (l_app (ingest a e wp now))).
           first_seen (snd x) \<le> last_seen (snd x) \<and> last_seen (snd x) \<le> now"
  unfolding ingest_eq by (rule fold_track_times) (use i in simp)

lemma update_sessions_times:
  assumes d: "distinct (map fst (sessions a))"
    and i: "\<forall>x \<in> set (sessions a). first_seen (snd x) \<le> last_seen (snd x) \<and> last_seen (snd x) \<le> t"
    and t: "t \<le> now"
  shows "\<forall>x \<in> set (sessions (fst (update_sessions a e wp now))).
           first_seen (snd x) \<le> last_seen (snd x) \<and> last_seen (snd x) \<le> now"
proof -
  have "\<forall>x \<in> set (sessions a). first_seen (snd x) \<le> last_seen (snd x) \<and> last_seen (snd x) \<le> now"
    using i t by force
  then have "\<forall>x \<in> set (sessions (l_app (ingest a e wp now))).
           first_seen (snd x) \<le> last_seen (snd x) \<and> last_seen (snd x) \<le> now"
    by (rule ingest_times)
  then show ?thesis unfolding sessions_after_pass[OF d] by simp
qed

lemma update_sessions_within_grace:
  assumes d: "distinct (map fst (sessions a))"
  shows "\<forall>x \<in> set (sessions (fst (update_sessions a e wp now))).
           fst x \<in> observed a wp (env_rows e) \<or> now - last_seen (snd x) < args_grace a"
  unfolding sessions_after_pass[OF d] by simp

lemma run_snoc: "run a (evs @ [ev]) = handle (run a evs) ev"
  by (simp add: run_def)

lemma poll_times_append: "poll_times (evs @ evs') = poll_times evs @ poll_times evs'"
  by (induction evs rule: poll_times.induct) simp_all

lemma run_distinct:
  "distinct (map fst (sessions a)) \<Longrightarrow> distinct (map fst (sessions (run a evs)))"
  by (induction evs rule: rev_induct) (simp_all add: run_Nil run_snoc handle_distinct)

lemma run_grace: "args_grace (run a evs) = args_grace a"
  by (induction evs rule: rev_induct) (simp_all add: run_Nil run_snoc handle_grace)

lemma run_times:
  "sessions a = [] \<Longrightarrow> sorted (poll_times evs) \<Longrightarrow> \<forall>x \<in> set (poll_times evs). x \<le> t \<Longrightarrow>
   \<forall>x \<in> set (sessions (run a evs)). first_seen (snd x) \<le> last_seen (snd x) \<and> last_seen (snd x) \<le> t"
proof (induction evs arbitrary: t rule: rev_induct)
  case Nil
  then show ?case by (simp add: run_Nil)
next
  case (snoc ev evs)
  have d: "distinct (map fst (sessions (run a evs)))"
    using snoc.prems(1) run_distinct[of a evs] by simp
  have srt: "sorted (poll_times evs)"
    using snoc.prems(2) by (simp add: poll_times_append sorted_append)
  show ?case
  proof (cases ev)
    case (Poll e wp now)
    have le: "\<forall>x \<in> set (poll_times evs). x \<le> now"
      using snoc.prems(2) Poll by (simp add: poll_times_append sorted_append)
    have nt: "now \<le> t" using snoc.prems(3) Poll by (simp add: poll_times_append)
    have A: "\<forall>x \<in> set (sessions (run a evs)). first_seen (snd x) \<le> last_seen (snd x) \<and> last_seen (snd x) \<le> now"
      using snoc.IH[OF snoc.prems(1) srt le] .
    have B: "\<forall>x \<in> set (sessions (fst (update_sessions (run a evs) e wp now))).
           first_seen (snd x) \<le> last_seen (snd x) \<and> last_seen (snd x) \<le> now"
      by (rule update_sessions_times[OF d A order_refl])
    show ?thesis
    proof
      fix x assume "x \<in> set (sessions (run a (evs @ [ev])))"
      then have "x \<in> set (sessions (fst (update_sessions (run a evs) e wp now)))"
        by (simp add: run_snoc Poll)
      with B have "first_seen (snd x) \<le> last_seen (snd x) \<and> last_seen (snd x) \<le> now" by blast
      then show "first_seen (snd x) \<le> last_seen (snd x) \<and> last_seen (snd x) \<le> t"
        using nt by simp
    qed
  next
    case KeyP
    have "\<forall>x \<in> set (poll_times evs). x \<le> t"
      using snoc.prems(3) by (simp add: poll_times_append)
    then have "\<forall>x \<in> set (sessions (run a evs)). first_seen (snd x) \<le> last_seen (snd x) \<and> last_seen (snd x) \<le> t"
      by (rule snoc.IH[OF snoc.prems(1) srt])
    moreover have "sessions (run a (evs @ [ev])) = sessions (run a evs)"
      by (simp add: run_snoc KeyP handle_toggle_sessions)
    ultimately show ?thesis by simp
  next
    case KeyA
    have "\<forall>x \<in> set (poll_times evs). x \<le> t"
      using snoc.prems(3) by (simp add: poll_times_append)
    then have "\<forall>x \<in> set (sessions (run a evs)). first_seen (snd x) \<le> last_seen (snd x) \<and> last_seen (snd x) \<le> t"
      by (rule snoc.IH[OF snoc.prems(1) srt])
    moreover have "sessions (run a (evs @ [ev])) = sessions (run a evs)"
      by (simp add: run_snoc KeyA handle_toggle_sessions)
    ultimately show ?thesis by simp
  next
    case KeyE
    have "\<forall>x \<in> set (poll_times evs). x \<le> t"
      using snoc.prems(3) by (simp add: poll_times_append)
    then have "\<forall>x \<in> set (sessions (run a evs)). first_seen (snd x) \<le> last_seen (snd x) \<and> last_seen (snd x) \<le> t"
      by (rule snoc.IH[OF snoc.prems(1) srt])
    moreover have "sessions (run a (evs @ [ev])) = sessions (run a evs)"
      by (simp add: run_snoc KeyE handle_toggle_sessions)
    ultimately show ?thesis by simp
  qed
qed

text \<open>
  Claim C5. Start from an empty session store and run any sequence of iterations of the
  main loop (polls and filter keys) whose polls have non-decreasing \<open>now\<close>. After each
  reconciliation pass every session in the store has \<open>last_seen \<ge> first_seen\<close>, and its
  key was observed in that poll or \<open>now - last_seen\<close> is strictly less than the grace
  period.
\<close>

theorem store_invariant:
  assumes "sessions a = []" and "sorted (poll_times (evs @ [Poll e wp now]))"
  shows "\<forall>x \<in> set (sessions (run a (evs @ [Poll e wp now]))).
           last_seen (snd x) \<ge> first_seen (snd x)
           \<and> (fst x \<in> observed (run a evs) wp (env_rows e)
               \<or> now - last_seen (snd x) < args_grace a)"
proof -
  have d: "distinct (map fst (sessions (run a evs)))"
    using assms(1) run_distinct[of a evs] by simp
  have t: "\<forall>x \<in> set (poll_times (evs @ [Poll e wp now])). x \<le> now"
    using assms(2) by (auto simp: poll_times_append sorted_append)
  have "\<forall>x \<in> set (sessions (run a (evs @ [Poll e wp now]))).
          first_seen (snd x) \<le> last_seen (snd x) \<and> last_seen (snd x) \<le> now"
    using run_times[OF assms(1) assms(2) t] .
  moreover have "\<forall>x \<in> set (sessions (run a (evs @ [Poll e wp now]))).
          fst x \<in> observed (run a evs) wp (env_rows e) \<or> now - last_seen (snd x) < args_grace a"
    using update_sessions_within_grace[OF d, of e wp now] by (simp add: run_snoc run_grace)
  ultimately show ?thesis by blast
qed

theorem store_invariant_witness:
  "sessions ex_app = []
   \<and> sorted (poll_times ([Poll (ex_env [ex_row]) [22] 0] @ [Poll (ex_env [ex_row]) [22] 5]))
   \<and> sessions (run ex_app ([Poll (ex_env [ex_row]) [22] 0] @ [Poll (ex_env [ex_row]) [22] 5]))
       = [(ex_key, ex_session)]
   \<and> last_seen ex_session \<ge> first_seen ex_session
   \<and> ex_key \<in> observed (run ex_app [Poll (ex_env [ex_row]) [22] 0]) [22]
                  (env_rows (ex_env [ex_row]))"
proof -
  have e: "sessions ex_app = []" by (simp add: ex_app_def)
  have s: "sorted (poll_times ([Poll (ex_env [ex_row]) [22] 0] @ [Poll (ex_env [ex_row]) [22] 5]))"
    by simp
  have r: "sessions (run ex_app ([Poll (ex_env [ex_row]) [22] 0] @ [Poll (ex_env [ex_row]) [22] 5]))
             = [(ex_key, ex_session)]"
    using ex_two_passes[of 0 5] by (simp add: ex_session_def)
  have m: "mode (run ex_app [Poll (ex_env [ex_row]) [22] 0]) = ''ALL''"
    by (simp add: run_def update_sessions_config ex_app_def)
  have o: "ex_key \<in> observed (run ex_app [Poll (ex_env [ex_row]) [22] 0]) [22]
                  (env_rows (ex_env [ex_row]))"
    using observed_ex_row[OF m] by (simp add: ex_env_def)
  have "last_seen ex_session \<ge> first_seen ex_session"
    using store_invariant[OF e s] unfolding r by simp
  then show ?thesis using e s r o by blast
qed

subsection \<open>Ranking and truncation of the history\<close>




lemma sort_history_stable:
  "filter (\<lambda>x. duration_s x = d) (sort_history hist) = filter (\<lambda>x. duration_s x = d) hist"
  using sort_key_stable[of "\<lambda>x. - duration_s x" "- d" hist]
  by (simp add: sort_history_def)





subsection \<open>The duration of an ended session\<close>

text \<open>
  Claim C8, as amended. Every record appended to the history has \<open>duration_s\<close> equal to
  \<open>max(0, last_seen - first_seen)\<close> floored to whole seconds: the floor of
  \<open>last_seen - first_seen\<close> when \<open>last_seen \<ge> first_seen\<close>, and 0 when
  \<open>last_seen < first_seen\<close>. It is never negative, for every pair of timestamps.
\<close>

theorem ended_duration_clamped:
  "duration_s (ended_record a ts s) = \<lfloor>max 0 (last_seen s - first_seen s)\<rfloor>
   \<and> 0 \<le> duration_s (ended_record a ts s)
   \<and> (first_seen s \<le> last_seen s \<longrightarrow>
        duration_s (ended_record a ts s) = \<lfloor>last_seen s - first_seen s\<rfloor>)
   \<and> (last_seen s < first_seen s \<longrightarrow> duration_s (ended_record a ts s) = 0)
   \<and> (\<forall>i < length (fst (expired a e wp now)).
        duration_s (appended_history a e wp now
                     ! (length (case ended_history (stats a) of None \<Rightarrow> [] | Some h \<Rightarrow> h) + i))
        = \<lfloor>max 0 (last_seen (fst (expired a e wp now) ! i)
                    - first_seen (fst (expired a e wp now) ! i))\<rfloor>)"
proof (intro conjI allI impI)
  show "duration_s (ended_record a ts s) = \<lfloor>max 0 (last_seen s - first_seen s)\<rfloor>"
    by (rule duration_s_ended_record)
  show "0 \<le> duration_s (ended_record a ts s)"
    by (simp add: duration_s_ended_record)
  show "duration_s (ended_record a ts s) = \<lfloor>last_seen s - first_seen s\<rfloor>"
    if "first_seen s \<le> last_seen s"
    using that by (simp add: duration_s_ended_record max_def)
  show "duration_s (ended_record a ts s) = 0" if "last_seen s < first_seen s"
    using that by (simp add: duration_s_ended_record max_def)
  show "duration_s (appended_history a e wp now
                     ! (length (case ended_history (stats a) of None \<Rightarrow> [] | Some h \<Rightarrow> h) + i))
        = \<lfloor>max 0 (last_seen (fst (expired a e wp now) ! i)
                    - first_seen (fst (expired a e wp now) ! i))\<rfloor>"
    if "i < length (fst (expired a e wp now))" for i
    using that nth_record_ended[of i "fst (expired a e wp now)" a "env_wall e"]
    by (simp add: appended_history_eq duration_s_ended_record)
qed

theorem ended_duration_clamped_witness:
  "duration_s (ended_record ex_app (ex_wall 0) ex_session) = 5
   \<and> first_seen ex_session \<le> last_seen ex_session
   \<and> duration_s (ended_record ex_app (ex_wall 0) (ex_session\<lparr>first_seen := 5, last_seen := 3\<rparr>)) = 0
   \<and> (0::nat) < length (fst (expired ex_app_tracking (ex_env []) [22] 14))
   \<and> duration_s (appended_history ex_app_tracking (ex_env []) [22] 14 ! 0) = 5"
  using ended_duration_clamped[where a = ex_app and ts = "ex_wall 0" and s = ex_session]
        ended_duration_clamped[where a = ex_app and ts = "ex_wall 0"
          and s = "ex_session\<lparr>first_seen := 5, last_seen := 3\<rparr>"]
        ended_duration_clamped[where a = ex_app_tracking and e = "ex_env []" and wp = "[22]"
          and now = 14 and s = ex_session and ts = "ex_wall 0"]
  by (simp add: ex_tracking_expired)
     (simp add: ex_session_def ex_app_tracking_def ex_app_def ex_stats_def fresh_stats_def)

text \<open>
  Claim C8 as stated fails when the wall clock is set back between the first and the last
  sighting of a flow: after polls at times 5 and 3 that see the flow and a poll at time
  20 that does not, the record appended has \<open>duration_s = 0\<close>, while the floor of
  \<open>last_seen - first_seen\<close> is \<open>-2\<close>.
\<close>

theorem ended_duration_not_plain_floor:
  "fst (expired ex_app_clock_back (ex_env []) [22] 20)
     = [ex_session\<lparr>first_seen := 5, last_seen := 3\<rparr>]
   \<and> duration_s (record_ended ex_app_clock_back ex_wall []
                    (fst (expired ex_app_clock_back (ex_env []) [22] 20)) ! 0)
     \<noteq> \<lfloor>last_seen (fst (expired ex_app_clock_back (ex_env []) [22] 20) ! 0)
          - first_seen (fst (expired ex_app_clock_back (ex_env []) [22] 20) ! 0)\<rfloor>"
  by (simp add: ex_clock_back_expired duration_s_ended_record)

subsection \<open>Counting first observations\<close>

lemma first_new_keys:
  "set (map flow_key (first_new ks rs)) = flow_key ` set rs - ks"
  by (induction rs arbitrary: ks) auto

lemma first_new_distinct: "distinct (map flow_key (first_new ks rs))"
proof (induction rs arbitrary: ks)
  case Nil
  show ?case by simp
next
  case (Cons r rs)
  show ?case
    using Cons.IH[of ks] Cons.IH[of "insert (flow_key r) ks"]
          first_new_keys[of "insert (flow_key r) ks" rs]
    by auto
qed

lemma first_new_none: "flow_key ` set rs \<subseteq> ks \<Longrightarrow> first_new ks rs = []"
  by (induction rs arbitrary: ks) auto

lemma get0_upd: "get0 (m(k \<mapsto> v)) k' = (if k' = k then v else get0 m k')"
  by (simp add: get0_def)

lemma port_hits_run_track_row:
  "port_hits_run (l_app (track_row now r l)) =
     (if flow_key r \<in> fst ` set (sessions (l_app l)) then port_hits_run (l_app l)
      else (port_hits_run (l_app l))
             (r_dport r \<mapsto> get0 (port_hits_run (l_app l)) (r_dport r) + 1))"
proof (cases "map_of (sessions (l_app l)) (flow_key r)")
  case None
  then have "flow_key r \<notin> fst ` set (sessions (l_app l))" by (simp add: map_of_eq_None_iff)
  then show ?thesis using None by (simp add: track_row_def Let_def)
next
  case (Some s)
  then have "flow_key r \<in> fst ` set (sessions (l_app l))"
    by (metis map_of_eq_None_iff option.distinct(1))
  then show ?thesis using Some by (simp add: track_row_def Let_def)
qed

lemma lifetime_track_row:
  "lifetime_port_hits (stats (l_app (track_row now r l))) =
     (if flow_key r \<in> fst ` set (sessions (l_app l)) then lifetime_port_hits (stats (l_app l))
      else Some ((case lifetime_port_hits (stats (l_app l)) of None \<Rightarrow> Map.empty | Some m \<Rightarrow> m)
             (str_int (r_dport r) \<mapsto>
                get0 (case lifetime_port_hits (stats (l_app l)) of None \<Rightarrow> Map.empty | Some m \<Rightarrow> m)
                  (str_int (r_dport r)) + 1)))"
proof (cases "map_of (sessions (l_app l)) (flow_key r)")
  case None
  then have "flow_key r \<notin> fst ` set (sessions (l_app l))" by (simp add: map_of_eq_None_iff)
  then show ?thesis using None by (simp add: track_row_def Let_def)
next
  case (Some s)
  then have "flow_key r \<in> fst ` set (sessions (l_app l))"
    by (metis map_of_eq_None_iff option.distinct(1))
  then show ?thesis using Some by (simp add: track_row_def Let_def)
qed

lemma first_new_Cons_tracked:
  "flow_key r \<in> ks \<Longrightarrow> first_new ks (r # rs) = first_new ks rs"
  by simp

lemma port_hits_run_fold:
  "get0 (port_hits_run (l_app (fold (track_row now) rows l))) p =
     get0 (port_hits_run (l_app l)) p
     + int (length (filter (\<lambda>r. r_dport r = p)
                      (first_new (fst ` set (sessions (l_app l))) rows)))"
proof (induction rows arbitrary: l)
  case Nil
  show ?case by simp
next
  case (Cons r rows)
  let ?ks = "fst ` set (sessions (l_app l))"
  have k: "fst ` set (sessions (l_app (track_row now r l))) = insert (flow_key r) ?ks"
    by (rule keys_track_row)
  show ?case
  proof (cases "flow_key r \<in> ?ks")
    case True
    then have "insert (flow_key r) ?ks = ?ks" by auto
    then show ?thesis
      using Cons.IH[of "track_row now r l"] True
      by (simp add: k port_hits_run_track_row)
  next
    case False
    then show ?thesis
      using Cons.IH[of "track_row now r l"]
      by (simp add: k port_hits_run_track_row get0_def)
  qed
qed

lemma lifetime_fold:
  "get0 (case lifetime_port_hits (stats (l_app (fold (track_row now) rows l)))
           of None \<Rightarrow> Map.empty | Some m \<Rightarrow> m) (str_int p) =
     get0 (case lifetime_port_hits (stats (l_app l)) of None \<Rightarrow> Map.empty | Some m \<Rightarrow> m) (str_int p)
     + int (length (filter (\<lambda>r. r_dport r = p)
                      (first_new (fst ` set (sessions (l_app l))) rows)))"
proof (induction rows arbitrary: l)
  case Nil
  show ?case by simp
next
  case (Cons r rows)
  let ?ks = "fst ` set (sessions (l_app l))"
  have k: "fst ` set (sessions (l_app (track_row now r l))) = insert (flow_key r) ?ks"
    by (rule keys_track_row)
  show ?case
  proof (cases "flow_key r \<in> ?ks")
    case True
    then have "insert (flow_key r) ?ks = ?ks" by auto
    then show ?thesis
      using Cons.IH[of "track_row now r l"] True
      by (simp add: k lifetime_track_row)
  next
    case False
    then show ?thesis
      using Cons.IH[of "track_row now r l"]
      by (simp add: k lifetime_track_row get0_def str_int_inj)
  qed
qed

lemma counters_unchanged_fold:
  "flow_key ` set rows \<subseteq> fst ` set (sessions (l_app l)) \<Longrightarrow>
   port_hits_run (l_app (fold (track_row now) rows l)) = port_hits_run (l_app l)
   \<and> lifetime_port_hits (stats (l_app (fold (track_row now) rows l)))
       = lifetime_port_hits (stats (l_app l))"
proof (induction rows arbitrary: l)
  case Nil
  show ?case by simp
next
  case (Cons r rows)
  have "flow_key r \<in> fst ` set (sessions (l_app l))" using Cons.prems by simp
  moreover have "flow_key ` set rows \<subseteq> fst ` set (sessions (l_app (track_row now r l)))"
    using Cons.prems by (auto simp: keys_track_row)
  ultimately show ?case
    using Cons.IH[of "track_row now r l"]
    by (simp add: port_hits_run_track_row lifetime_track_row)
qed


subsection \<open>Sessions of observed keys\<close>

lemma map_of_track_row_same:
  "map_of (sessions (l_app (track_row now r l))) (flow_key r) =
     Some (case map_of (sessions (l_app l)) (flow_key r) of
          None \<Rightarrow> \<lparr>key = flow_key r, src_ip = r_src r, src_port = r_sport r, dst_ip = r_dst r,
                    dst_port = r_dport r, state = r_state r, timeout_s = r_timeout r,
                    first_seen = now, last_seen = now\<rparr>
        | Some s \<Rightarrow> s\<lparr>state := r_state r, timeout_s := r_timeout r, last_seen := now\<rparr>)"
  by (simp add: sessions_track_row update_conv')

lemma fold_track_tracked:
  "map_of (sessions (l_app l)) k = Some s \<Longrightarrow>
   \<exists>s'. map_of (sessions (l_app (fold (track_row now) rows l))) k = Some s'
        \<and> first_seen s' = first_seen s \<and> key s' = key s \<and> src_ip s' = src_ip s
        \<and> src_port s' = src_port s \<and> dst_ip s' = dst_ip s \<and> dst_port s' = dst_port s
        \<and> (if k \<in> flow_key ` set rows then last_seen s' = now else s' = s)"
proof (induction rows arbitrary: l s)
  case Nil
  then show ?case by simp
next
  case (Cons r rows)
  show ?case
  proof (cases "flow_key r = k")
    case True
    define s1 where "s1 = s\<lparr>state := r_state r, timeout_s := r_timeout r, last_seen := now\<rparr>"
    have m: "map_of (sessions (l_app (track_row now r l))) k = Some s1"
      using map_of_track_row_same[of now r l] True Cons.prems by (simp add: s1_def)
    obtain s' where s': "map_of (sessions (l_app (fold (track_row now) rows (track_row now r l)))) k = Some s'"
        "first_seen s' = first_seen s1" "key s' = key s1" "src_ip s' = src_ip s1"
        "src_port s' = src_port s1" "dst_ip s' = dst_ip s1" "dst_port s' = dst_port s1"
        "if k \<in> flow_key ` set rows then last_seen s' = now else s' = s1"
      using Cons.IH[OF m] by blast
    have "last_seen s' = now" using s'(8) by (auto simp: s1_def split: if_splits)
    then show ?thesis using s' True by (auto simp: s1_def)
  next
    case False
    have m: "map_of (sessions (l_app (track_row now r l))) k = Some s"
      using False Cons.prems by (simp add: map_of_track_row_other)
    show ?thesis using Cons.IH[OF m] False by auto
  qed
qed

lemma fold_track_new:
  "map_of (sessions (l_app l)) k = None \<Longrightarrow> k \<in> flow_key ` set rows \<Longrightarrow>
   \<exists>s'. map_of (sessions (l_app (fold (track_row now) rows l))) k = Some s'
        \<and> first_seen s' = now \<and> last_seen s' = now"
proof (induction rows arbitrary: l)
  case Nil
  then show ?case by simp
next
  case (Cons r rows)
  show ?case
  proof (cases "flow_key r = k")
    case True
    define s1 where "s1 = \<lparr>key = flow_key r, src_ip = r_src r, src_port = r_sport r,
        dst_ip = r_dst r, dst_port = r_dport r, state = r_state r, timeout_s = r_timeout r,
        first_seen = now, last_seen = now\<rparr>"
    have m: "map_of (sessions (l_app (track_row now r l))) k = Some s1"
      using map_of_track_row_same[of now r l] True Cons.prems(1) by (simp add: s1_def)
    obtain s' where s': "map_of (sessions (l_app (fold (track_row now) rows (track_row now r l)))) k = Some s'"
        "first_seen s' = first_seen s1"
        "if k \<in> flow_key ` set rows then last_seen s' = now else s' = s1"
      using fold_track_tracked[OF m, of now rows] by blast
    have "last_seen s' = now" using s'(3) by (auto simp: s1_def split: if_splits)
    then show ?thesis using s' by (auto simp: s1_def)
  next
    case False
    have m: "map_of (sessions (l_app (track_row now r l))) k = None"
      using False Cons.prems(1) by (simp add: map_of_track_row_other)
    have "k \<in> flow_key ` set rows" using False Cons.prems(2) by auto
    then show ?thesis using Cons.IH[OF m] by simp
  qed
qed

lemma observed_kept:
  assumes d: "distinct (map fst (sessions a))" and o: "k \<in> observed a wp (env_rows e)"
    and m: "map_of (sessions (l_app (ingest a e wp now))) k = Some s'"
  shows "map_of (sessions (fst (update_sessions a e wp now))) k = Some s'"
  using map_of_filter_keep[OF distinct_ingest[OF d] m,
      of "\<lambda>x. fst x \<in> observed a wp (env_rows e) \<or> now - last_seen (snd x) < args_grace a"] o
  unfolding sessions_after_pass[OF d] by simp

lemma new_session_created:
  assumes d: "distinct (map fst (sessions a))" and o: "k \<in> observed a wp (env_rows e)"
    and n: "k \<notin> tracked a"
  shows "\<exists>s'. map_of (sessions (fst (update_sessions a e wp now))) k = Some s'
             \<and> first_seen s' = now \<and> last_seen s' = now"
proof -
  have "map_of (sessions a) k = None" using n by (simp add: tracked_def map_of_eq_None_iff)
  moreover have "k \<in> flow_key ` set (surviving a wp (env_rows e))" using o by (simp add: observed_def)
  ultimately obtain s' where s': "map_of (sessions (l_app (ingest a e wp now))) k = Some s'"
      "first_seen s' = now" "last_seen s' = now"
    using fold_track_new[of "\<lparr>l_app = a\<lparr>host_ips := set (env_host_ips e)\<rparr>,
            state_counts = Map.empty, seen_keys = {}\<rparr>" k "surviving a wp (env_rows e)" now]
    by (auto simp: ingest_eq)
  then show ?thesis using observed_kept[OF d o s'(1)] by blast
qed

lemma tracked_session_updated:
  assumes d: "distinct (map fst (sessions a))" and o: "k \<in> observed a wp (env_rows e)"
    and m: "map_of (sessions a) k = Some s"
  shows "\<exists>s'. map_of (sessions (fst (update_sessions a e wp now))) k = Some s'
             \<and> first_seen s' = first_seen s \<and> last_seen s' = now \<and> key s' = key s
             \<and> src_ip s' = src_ip s \<and> src_port s' = src_port s \<and> dst_ip s' = dst_ip s
             \<and> dst_port s' = dst_port s"
proof -
  have k: "k \<in> flow_key ` set (surviving a wp (env_rows e))" using o by (simp add: observed_def)
  obtain s' where s': "map_of (sessions (l_app (ingest a e wp now))) k = Some s'"
      "first_seen s' = first_seen s" "key s' = key s" "src_ip s' = src_ip s"
      "src_port s' = src_port s" "dst_ip s' = dst_ip s" "dst_port s' = dst_port s"
      "last_seen s' = now"
    using fold_track_tracked[of "\<lparr>l_app = a\<lparr>host_ips := set (env_host_ips e)\<rparr>,
            state_counts = Map.empty, seen_keys = {}\<rparr>" k s now "surviving a wp (env_rows e)"] m k
    by (auto simp: ingest_eq)
  then show ?thesis using observed_kept[OF d o s'(1)] by blast
qed

lemma counters_after_pass:
  "port_hits_run (fst (update_sessions a e wp now)) = port_hits_run (l_app (ingest a e wp now))"
  "lifetime_port_hits (stats (fst (update_sessions a e wp now)))
     = lifetime_port_hits (stats (l_app (ingest a e wp now)))"
  by (simp_all add: update_sessions_def Let_def)

lemma port_hits_run_pass:
  "get0 (port_hits_run (fst (update_sessions a e wp now))) p =
     get0 (port_hits_run a) p
     + int (length (filter (\<lambda>r. r_dport r = p)
                      (first_new (tracked a) (surviving a wp (env_rows e)))))"
  using port_hits_run_fold[of now "surviving a wp (env_rows e)"
          "\<lparr>l_app = a\<lparr>host_ips := set (env_host_ips e)\<rparr>,
            state_counts = Map.empty, seen_keys = {}\<rparr>" p]
  by (simp add: counters_after_pass ingest_eq tracked_def)

lemma lifetime_pass:
  "get0 (case lifetime_port_hits (stats (fst (update_sessions a e wp now)))
           of None \<Rightarrow> Map.empty | Some m \<Rightarrow> m) (str_int p) =
     get0 (case lifetime_port_hits (stats a) of None \<Rightarrow> Map.empty | Some m \<Rightarrow> m) (str_int p)
     + int (length (filter (\<lambda>r. r_dport r = p)
                      (first_new (tracked a) (surviving a wp (env_rows e)))))"
  using lifetime_fold[of now "surviving a wp (env_rows e)"
          "\<lparr>l_app = a\<lparr>host_ips := set (env_host_ips e)\<rparr>,
            state_counts = Map.empty, seen_keys = {}\<rparr>" p]
  by (simp add: counters_after_pass ingest_eq tracked_def)

lemma counters_unchanged_pass:
  assumes "observed a wp (env_rows e) \<subseteq> tracked a"
  shows "port_hits_run (fst (update_sessions a e wp now)) = port_hits_run a
         \<and> lifetime_port_hits (stats (fst (update_sessions a e wp now)))
             = lifetime_port_hits (stats a)"
  using counters_unchanged_fold[of "surviving a wp (env_rows e)"
          "\<lparr>l_app = a\<lparr>host_ips := set (env_host_ips e)\<rparr>,
            state_counts = Map.empty, seen_keys = {}\<rparr>" now] assms
  by (simp add: counters_after_pass ingest_eq tracked_def observed_def)

text \<open>
  Claim C3. In a reconciliation pass, a surviving record whose key is not yet in the
  session store creates a session with \<open>first_seen = last_seen = now\<close>; a key that is
  tracked and observed keeps its \<open>first_seen\<close> (and key, addresses and ports) and gets
  \<open>last_seen = now\<close>. The run-scoped and the lifetime counter of a destination port both
  grow by the number of first observations with that port, where there is exactly one
  first observation for each observed key that was not tracked: duplicates of a key
  within the poll count once, and when every observed key is already tracked, as on the
  later polls of a flow, neither counter changes.
\<close>

theorem first_observation_counted_once:
  assumes "distinct (map fst (sessions a))"
  shows "(k \<in> observed a wp (env_rows e) \<and> k \<notin> tracked a \<longrightarrow>
            (\<exists>s'. map_of (sessions (fst (update_sessions a e wp now))) k = Some s'
                  \<and> first_seen s' = now \<and> last_seen s' = now))
       \<and> (k \<in> observed a wp (env_rows e) \<and> map_of (sessions a) k = Some s \<longrightarrow>
            (\<exists>s'. map_of (sessions (fst (update_sessions a e wp now))) k = Some s'
                  \<and> first_seen s' = first_seen s \<and> last_seen s' = now \<and> key s' = key s
                  \<and> src_ip s' = src_ip s \<and> src_port s' = src_port s \<and> dst_ip s' = dst_ip s
                  \<and> dst_port s' = dst_port s))
       \<and> get0 (port_hits_run (fst (update_sessions a e wp now))) p =
            get0 (port_hits_run a) p
            + int (length (filter (\<lambda>r. r_dport r = p)
                             (first_new (tracked a) (surviving a wp (env_rows e)))))
       \<and> get0 (case lifetime_port_hits (stats (fst (update_sessions a e wp now)))
                  of None \<Rightarrow> Map.empty | Some m \<Rightarrow> m) (str_int p) =
            get0 (case lifetime_port_hits (stats a) of None \<Rightarrow> Map.empty | Some m \<Rightarrow> m)
              (str_int p)
            + int (length (filter (\<lambda>r. r_dport r = p)
                             (first_new (tracked a) (surviving a wp (env_rows e)))))
       \<and> distinct (map flow_key (first_new (tracked a) (surviving a wp (env_rows e))))
       \<and> set (map flow_key (first_new (tracked a) (surviving a wp (env_rows e))))
            = observed a wp (env_rows e) - tracked a
       \<and> (observed a wp (env_rows e) \<subseteq> tracked a \<longrightarrow>
            port_hits_run (fst (update_sessions a e wp now)) = port_hits_run a
            \<and> lifetime_port_hits (stats (fst (update_sessions a e wp now)))
                = lifetime_port_hits (stats a))"
proof (intro conjI impI)
  show "\<exists>s'. map_of (sessions (fst (update_sessions a e wp now))) k = Some s'
             \<and> first_seen s' = now \<and> last_seen s' = now"
    if "k \<in> observed a wp (env_rows e) \<and> k \<notin> tracked a"
    using that new_session_created[OF assms, of k wp e now] by blast
  show "\<exists>s'. map_of (sessions (fst (update_sessions a e wp now))) k = Some s'
             \<and> first_seen s' = first_seen s \<and> last_seen s' = now \<and> key s' = key s
             \<and> src_ip s' = src_ip s \<and> src_port s' = src_port s \<and> dst_ip s' = dst_ip s
             \<and> dst_port s' = dst_port s"
    if "k \<in> observed a wp (env_rows e) \<and> map_of (sessions a) k = Some s"
    using that tracked_session_updated[OF assms, of k wp e s now] by blast
  show "get0 (port_hits_run (fst (update_sessions a e wp now))) p =
            get0 (port_hits_run a) p
            + int (length (filter (\<lambda>r. r_dport r = p)
                             (first_new (tracked a) (surviving a wp (env_rows e)))))"
    by (rule port_hits_run_pass)
  show "get0 (case lifetime_port_hits (stats (fst (update_sessions a e wp now)))
                  of None \<Rightarrow> Map.empty | Some m \<Rightarrow> m) (str_int p) =
            get0 (case lifetime_port_hits (stats a) of None \<Rightarrow> Map.empty | Some m \<Rightarrow> m)
              (str_int p)
            + int (length (filter (\<lambda>r. r_dport r = p)
                             (first_new (tracked a) (surviving a wp (env_rows e)))))"
    by (rule lifetime_pass)
  show "distinct (map flow_key (first_new (tracked a) (surviving a wp (env_rows e))))"
    by (rule first_new_distinct)
  show "set (map flow_key (first_new (tracked a) (surviving a wp (env_rows e))))
            = observed a wp (env_rows e) - tracked a"
    unfolding first_new_keys by (simp add: observed_def)
  show "port_hits_run (fst (update_sessions a e wp now)) = port_hits_run a"
    if "observed a wp (env_rows e) \<subseteq> tracked a"
    using counters_unchanged_pass[OF that] by blast
  show "lifetime_port_hits (stats (fst (update_sessions a e wp now)))
                = lifetime_port_hits (stats a)"
    if "observed a wp (env_rows e) \<subseteq> tracked a"
    using counters_unchanged_pass[OF that] by blast
qed

lemma str_int_22: "str_int 22 = ''22''"
  by (simp add: str_int_def str_nat.simps digit_char_def)

theorem first_observation_counted_once_witness:
  "distinct (map fst (sessions ex_app))
   \<and> ex_key \<in> observed ex_app [22] (env_rows (ex_env [ex_row, ex_row]))
   \<and> ex_key \<notin> tracked ex_app
   \<and> (\<exists>s'. map_of (sessions (fst (update_sessions ex_app (ex_env [ex_row, ex_row]) [22] 5)))
              ex_key = Some s' \<and> first_seen s' = 5 \<and> last_seen s' = 5)
   \<and> get0 (port_hits_run (fst (update_sessions ex_app (ex_env [ex_row, ex_row]) [22] 5))) 22 = 1
   \<and> get0 (case lifetime_port_hits
                   (stats (fst (update_sessions ex_app (ex_env [ex_row, ex_row]) [22] 5)))
             of None \<Rightarrow> Map.empty | Some m \<Rightarrow> m) ''22'' = 1"
proof -
  have d: "distinct (map fst (sessions ex_app))" by (simp add: ex_app_def)
  have m: "mode ex_app = ''ALL''" by (simp add: ex_app_def)
  have sv: "surviving ex_app [22] (env_rows (ex_env [ex_row, ex_row])) = [ex_row, ex_row]"
    using not_discarded_ex_row[OF m] by (simp add: surviving_def ex_env_def)
  have o: "observed ex_app [22] (env_rows (ex_env [ex_row, ex_row])) = {ex_key}"
    by (simp add: observed_def sv ex_key_eq)
  have t: "tracked ex_app = {}" by (simp add: tracked_def ex_app_def)
  have fn: "first_new {} [ex_row, ex_row] = [ex_row]" by simp
  have p: "r_dport ex_row = 22" by (simp add: ex_row_def)
  have c: "get0 (port_hits_run ex_app) 22 = 0"
    "get0 (case lifetime_port_hits (stats ex_app) of None \<Rightarrow> Map.empty | Some m \<Rightarrow> m) ''22'' = 0"
    by (simp_all add: get0_def ex_app_def ex_stats_def fresh_stats_def)
  show ?thesis
    using d first_observation_counted_once[OF d, of ex_key "[22]" "ex_env [ex_row, ex_row]" 5 _ 22]
    by (simp add: o t sv fn p c str_int_22)
qed

subsection \<open>The documents the program holds\<close>

lemma track_row_document:
  "is_document (stats (l_app l)) \<Longrightarrow> is_document (stats (l_app (track_row now r l)))"
  by (simp add: track_row_def Let_def is_document_def split: option.splits)

lemma fold_track_document:
  "is_document (stats (l_app l)) \<Longrightarrow> is_document (stats (l_app (fold (track_row now) rows l)))"
  by (induction rows arbitrary: l) (simp_all add: track_row_document)

lemma update_sessions_document:
  assumes "is_document (stats a)"
  shows "is_document (stats (fst (update_sessions a e wp now)))"
proof -
  have "is_document (stats (l_app (ingest a e wp now)))"
    unfolding ingest_eq by (rule fold_track_document) (use assms in simp)
  then show ?thesis by (simp add: update_sessions_def Let_def is_document_def)
qed

lemma save_stats_document: "is_document st \<Longrightarrow> is_document (fst (save_stats st ts dk))"
  by (simp add: save_stats_def Let_def is_document_def)

lemma reset_lifetime_hits_document:
  "is_document (stats a) \<Longrightarrow> is_document (stats (fst (reset_lifetime_hits a ts dk)))"
  by (simp add: reset_lifetime_hits_def save_stats_def set_action_def Let_def is_document_def)

end
